theory Spec2Isabelle
  imports Main "HOL-Library.Word" "HOL-Library.Sublist"
begin

section \<open>The Decaf parser (p2-parser.c): data model\<close>

text \<open>
  The parser consumes a queue of tokens and builds a tree of AST nodes. The token and
  node declarations live in headers that are not part of the sources; the types below
  are read off the way the parser uses them (the token fields \<open>type\<close>, \<open>text\<close>,
  \<open>line\<close>, and the \<open>XNode_new\<close> constructor calls with their argument lists).
\<close>

datatype TokenType = ID | DECLIT | HEXLIT | STRLIT | KEY | SYM

datatype Token = Token (tok_type: TokenType) (tok_text: string) (tok_line: int)

text \<open>The queue is a singly linked list from \<open>head\<close>; the model is the list of its nodes.\<close>

type_synonym TokenQueue = "Token list"

text \<open>\<open>INT\<close> is taken by the syntax of intersections, hence the prime.\<close>

datatype DecafType = INT' | BOOL | VOID

datatype UnaryOpType = NEGOP | NOTOP

datatype BinaryOpType =
    OROP | ANDOP | EQOP | NEQOP | LTOP | LEOP | GEOP | GTOP
  | ADDOP | SUBOP | MULOP | DIVOP | MODOP

text \<open>
  Every node is an \<open>ASTNode*\<close> in the source, whatever its kind, so the model has one
  node type. A child pointer that may be \<open>NULL\<close> is an option. The C \<open>int\<close> of a
  literal and of an array length is a 32-bit word; source lines are kept as integers.
\<close>

datatype ASTNode =
    ProgramNode_new "ASTNode list" "ASTNode list"
  | VarDeclNode_new string DecafType bool "32 word" int
  | FuncDeclNode_new string DecafType "(string \<times> DecafType) list" ASTNode int
  | BlockNode_new "ASTNode list" "ASTNode list" int
  | AssignmentNode_new ASTNode ASTNode int
  | ConditionalNode_new ASTNode ASTNode "ASTNode option" int
  | WhileLoopNode_new ASTNode ASTNode int
  | ReturnNode_new "ASTNode option" int
  | BreakNode_new int
  | ContinueNode_new int
  | BinaryOpNode_new BinaryOpType ASTNode ASTNode int
  | UnaryOpNode_new UnaryOpType ASTNode int
  | LocationNode_new string "ASTNode option" int
  | FuncCallNode_new string "ASTNode list" int
  | LiteralNode_new_int "32 word" int
  | LiteralNode_new_bool bool int
  | LiteralNode_new_string string int

text \<open>
  \<open>Error_throw_printf\<close> aborts the parse with a message. The model returns the error as
  a value: the fixed messages keep their text, the formatted ones keep their arguments.
  The last four values are not messages of the parser: taking a token from an empty queue,
  reading through a null \<open>next\<close> pointer, a library call that copies between overlapping
  parts of one array (which C leaves undefined), and the end of the recursion budget of the
  model.
\<close>

datatype error =
    Error_throw string
  | Unexpected_end_expected string
  | Expected_but_found string string int
  | Invalid_type string int
  | Invalid_ID string int
  | Invalid_base_expression string int
  | Invalid_statement int
  | Remove_from_empty_queue
  | Null_dereference
  | Overlapping_copy
  | Out_of_fuel

section \<open>Helper functions\<close>

text \<open>
  Modelled from the spec: the queue operations \<open>TokenQueue_is_empty\<close>,
  \<open>TokenQueue_peek\<close> and \<open>TokenQueue_remove\<close> and the comparison \<open>token_str_eq\<close>
  belong to the token library, which is not in the sources. The spec's token cursor is a
  FIFO sequence with an emptiness check, a peek and a consume.
\<close>

definition TokenQueue_is_empty :: "TokenQueue \<Rightarrow> bool" where
  "TokenQueue_is_empty input = (input = [])"

definition TokenQueue_peek :: "TokenQueue \<Rightarrow> Token option" where
  "TokenQueue_peek input = (case input of [] \<Rightarrow> None | t # _ \<Rightarrow> Some t)"

definition TokenQueue_remove :: "TokenQueue \<Rightarrow> error + (Token \<times> TokenQueue)" where
  "TokenQueue_remove input =
     (case input of [] \<Rightarrow> Inl Remove_from_empty_queue | t # rest \<Rightarrow> Inr (t, rest))"

definition token_str_eq :: "string \<Rightarrow> string \<Rightarrow> bool" where
  "token_str_eq a b = (a = b)"

definition get_next_token_line :: "TokenQueue \<Rightarrow> error + int" where
  "get_next_token_line input =
     (if TokenQueue_is_empty input then Inl (Error_throw ''Unexpected end of input'')
      else case TokenQueue_peek input of
             None \<Rightarrow> Inl Null_dereference
           | Some t \<Rightarrow> Inr (tok_line t))"

text \<open>
  In the mismatch branch the token has already been removed, and the argument
  \<open>get_next_token_line(input)\<close> is evaluated before the message is thrown: on an empty
  rest it throws its own message first.
\<close>

definition match_and_discard_next_token ::
  "TokenQueue \<Rightarrow> TokenType \<Rightarrow> string \<Rightarrow> error + TokenQueue" where
  "match_and_discard_next_token input ty txt =
     (if TokenQueue_is_empty input then Inl (Unexpected_end_expected txt)
      else case TokenQueue_remove input of
             Inl e \<Rightarrow> Inl e
           | Inr (token, input1) \<Rightarrow>
               if tok_type token \<noteq> ty \<or> \<not> token_str_eq (tok_text token) txt
               then (case get_next_token_line input1 of
                       Inl e \<Rightarrow> Inl e
                     | Inr ln \<Rightarrow> Inl (Expected_but_found txt (tok_text token) ln))
               else Inr input1)"

definition discard_next_token :: "TokenQueue \<Rightarrow> error + TokenQueue" where
  "discard_next_token input =
     (if TokenQueue_is_empty input then Inl (Error_throw ''Unexpected end of input'')
      else case TokenQueue_remove input of
             Inl e \<Rightarrow> Inl e
           | Inr (token, input1) \<Rightarrow> Inr input1)"

definition check_next_token_type :: "TokenQueue \<Rightarrow> TokenType \<Rightarrow> bool" where
  "check_next_token_type input ty =
     (if TokenQueue_is_empty input then False
      else case TokenQueue_peek input of
             None \<Rightarrow> False
           | Some token \<Rightarrow> tok_type token = ty)"

definition check_next_token :: "TokenQueue \<Rightarrow> TokenType \<Rightarrow> string \<Rightarrow> bool" where
  "check_next_token input ty txt =
     (if TokenQueue_is_empty input then False
      else case TokenQueue_peek input of
             None \<Rightarrow> False
           | Some token \<Rightarrow> tok_type token = ty \<and> token_str_eq (tok_text token) txt)"

text \<open>
  The expression \<open>input->head->next->text\<close> of the two identifier dispatches: the text of
  the queue's second node. With fewer than two nodes it reads through a null pointer.
\<close>

definition head_next_text :: "TokenQueue \<Rightarrow> error + string" where
  "head_next_text input =
     (case input of
        t # t2 # _ \<Rightarrow> Inr (tok_text t2)
      | _ \<Rightarrow> Inl Null_dereference)"

section \<open>Types and identifiers\<close>

definition parse_type :: "TokenQueue \<Rightarrow> error + (DecafType \<times> TokenQueue)" where
  "parse_type input =
     (if TokenQueue_is_empty input
      then Inl (Error_throw ''Unexpected end of input (expected int, bool, or void)'')
      else case TokenQueue_remove input of
             Inl e \<Rightarrow> Inl e
           | Inr (token, input1) \<Rightarrow>
               if tok_type token \<noteq> KEY
               then (case get_next_token_line input1 of
                       Inl e \<Rightarrow> Inl e
                     | Inr ln \<Rightarrow> Inl (Invalid_type (tok_text token) ln))
               else if token_str_eq ''int'' (tok_text token) then Inr (INT', input1)
               else if token_str_eq ''bool'' (tok_text token) then Inr (BOOL, input1)
               else if token_str_eq ''void'' (tok_text token) then Inr (VOID, input1)
               else (case get_next_token_line input1 of
                       Inl e \<Rightarrow> Inl e
                     | Inr ln \<Rightarrow> Inl (Invalid_type (tok_text token) ln)))"

text \<open>
  Modelled from the spec: \<open>MAX_ID_LEN\<close> is a macro of a header that is not in the
  sources; the spec gives the fixed maximum as 256 bytes. \<open>snprintf\<close> with that size
  keeps at most 255 characters.
\<close>

definition MAX_ID_LEN :: nat where
  "MAX_ID_LEN = 256"

definition parse_id :: "TokenQueue \<Rightarrow> error + (string \<times> TokenQueue)" where
  "parse_id input =
     (if TokenQueue_is_empty input
      then Inl (Error_throw ''Unexpected end of input (expected id token)'')
      else case TokenQueue_remove input of
             Inl e \<Rightarrow> Inl e
           | Inr (token, input1) \<Rightarrow>
               if tok_type token \<noteq> ID
               then (case get_next_token_line input1 of
                       Inl e \<Rightarrow> Inl e
                     | Inr ln \<Rightarrow> Inl (Invalid_ID (tok_text token) ln))
               else Inr (take (MAX_ID_LEN - 1) (tok_text token), input1))"

section \<open>The C library functions the parser calls\<close>

text \<open>
  \<open>strtol\<close>, \<open>strlen\<close>, \<open>strstr\<close> and \<open>strncat\<close> are functions of the C library.
  They are modelled after ISO C: \<open>strtol\<close> skips white space, takes an optional sign and,
  for base 16, an optional \<open>0x\<close>, reads the longest run of digits of the base, and returns
  its value, or \<open>LONG_MAX\<close>/\<open>LONG_MIN\<close> when the value does not fit a \<open>long\<close>. A \<open>long\<close>
  has 64 bits here (an LP64 host); the cast to \<open>int\<close> keeps the low 32 bits.
\<close>

abbreviation NUL :: char where "NUL \<equiv> CHR 0x00"
abbreviation newline :: char where "newline \<equiv> CHR 0x0A"
abbreviation tab :: char where "tab \<equiv> CHR 0x09"
abbreviation backslash :: char where "backslash \<equiv> CHR 0x5C"
abbreviation dquote :: char where "dquote \<equiv> CHR 0x22"

definition LONG_MAX :: int where
  "LONG_MAX = 2 ^ 63 - 1"

definition LONG_MIN :: int where
  "LONG_MIN = - (2 ^ 63)"

definition isspace :: "char \<Rightarrow> bool" where
  "isspace c = (c \<in> set [CHR '' '', tab, newline, CHR 0x0B, CHR 0x0C, CHR 0x0D])"

definition digit_of :: "char \<Rightarrow> nat option" where
  "digit_of c =
     (let k = (of_char c :: nat) in
      if 48 \<le> k \<and> k \<le> 57 then Some (k - 48)
      else if 97 \<le> k \<and> k \<le> 122 then Some (k - 87)
      else if 65 \<le> k \<and> k \<le> 90 then Some (k - 55)
      else None)"

fun strtol_digits :: "nat \<Rightarrow> int \<Rightarrow> string \<Rightarrow> int" where
  "strtol_digits base acc [] = acc"
| "strtol_digits base acc (c # cs) =
     (case digit_of c of
        None \<Rightarrow> acc
      | Some d \<Rightarrow> if d < base then strtol_digits base (acc * int base + int d) cs else acc)"

definition strtol :: "string \<Rightarrow> nat \<Rightarrow> int" where
  "strtol nptr base =
     (let s = dropWhile isspace nptr;
          neg = (case s of c # _ \<Rightarrow> c = CHR ''-'' | [] \<Rightarrow> False);
          s1 = (case s of c # r \<Rightarrow> if c = CHR ''-'' \<or> c = CHR ''+'' then r else s | [] \<Rightarrow> s);
          s2 = (if base = 16 \<and> (take 2 s1 = ''0x'' \<or> take 2 s1 = ''0X'') then drop 2 s1 else s1);
          v = strtol_digits base 0 s2
      in if neg then max LONG_MIN (- v) else min LONG_MAX v)"

definition int_of_long :: "int \<Rightarrow> 32 word" where
  "int_of_long v = word_of_int v"

text \<open>
  A token's text is a character array holding a NUL-terminated string. The string branch
  of \<open>parse_lit\<close> edits that array in place through the pointers \<open>p\<close> and \<open>p2\<close>, so the
  model keeps the array (a list of characters) and the pointers as offsets into it.
  \<open>c_str buf p\<close> is the C string that starts at offset \<open>p\<close>.
\<close>

definition c_str :: "char list \<Rightarrow> nat \<Rightarrow> string" where
  "c_str buf p = takeWhile (\<lambda>c. c \<noteq> NUL) (drop p buf)"

definition strlen :: "char list \<Rightarrow> nat \<Rightarrow> nat" where
  "strlen buf p = length (c_str buf p)"

fun find_first :: "string \<Rightarrow> string \<Rightarrow> nat option" where
  "find_first needle [] = (if needle = [] then Some 0 else None)"
| "find_first needle (c # cs) =
     (if prefix needle (c # cs) then Some 0 else map_option Suc (find_first needle cs))"

definition strstr :: "char list \<Rightarrow> nat \<Rightarrow> string \<Rightarrow> nat option" where
  "strstr buf p needle = map_option (\<lambda>i. p + i) (find_first needle (c_str buf p))"

text \<open>
  \<open>strncat\<close> finds the end of the destination string, copies at most \<open>n\<close> characters of
  the source there and writes the terminator. The first call of the parser appends a
  string literal, an object of its own.
\<close>

fun append_chars :: "char list \<Rightarrow> nat \<Rightarrow> string \<Rightarrow> char list" where
  "append_chars buf d [] = buf[d := NUL]"
| "append_chars buf d (c # cs) = append_chars (buf[d := c]) (Suc d) cs"

definition strncat_literal :: "char list \<Rightarrow> nat \<Rightarrow> string \<Rightarrow> nat \<Rightarrow> char list" where
  "strncat_literal buf p src n = append_chars buf (p + strlen buf p) (take n src)"

text \<open>
  The second call appends a string that lies in the same array as the destination. ISO C
  says of \<open>strncat\<close>: if copying takes place between objects that overlap, the behavior is
  undefined; what a host then leaves in the array depends on how its library moves the
  bytes. The call writes the bytes from the end \<open>d\<close> of the destination string up to
  \<open>d + len\<close> (the characters and the terminator) and reads \<open>reads\<close> bytes from \<open>p2\<close> on (the
  characters, and the terminator when it is reached within \<open>n\<close>). When the two ranges
  meet, the model returns \<open>Overlapping_copy\<close> and says nothing about the array; otherwise
  the result is the array with the source string and a terminator written at \<open>d\<close>.
\<close>

definition strncat_within :: "char list \<Rightarrow> nat \<Rightarrow> nat \<Rightarrow> nat \<Rightarrow> error + char list" where
  "strncat_within buf p p2 n =
     (let d = p + strlen buf p;
          src = take n (c_str buf p2);
          len = length src;
          reads = min n (Suc (strlen buf p2))
      in if 0 < reads \<and> d < p2 + reads \<and> p2 \<le> d + len then Inl Overlapping_copy
         else Inr (take d buf @ src @ NUL # drop (Suc (d + len)) buf))"

section \<open>Literals\<close>

text \<open>
  The string branch of \<open>parse_lit\<close>: \<open>p = token->text + 1\<close>, the last character of \<open>p\<close> is
  overwritten by the terminator, then the first of the four \<open>strstr\<close> searches that finds
  something decides the one replacement: the array is cut at the match, the replacement
  character is appended, and then the rest of the array after the escape is appended with
  the second \<open>strncat\<close>. The offset \<open>p\<close> is 1, so \<open>p + strlen buf p - 1\<close> is the index the
  code writes, also when \<open>strlen(p)\<close> is 0 and the unsigned \<open>strlen(p) - 1\<close> wraps: the write
  then goes to \<open>text[0]\<close>.
\<close>

definition find_escape :: "char list \<Rightarrow> nat \<Rightarrow> (nat \<times> string) option" where
  "find_escape buf p =
     (case strstr buf p [backslash, CHR ''n''] of
        Some p2 \<Rightarrow> Some (p2, [newline])
      | None \<Rightarrow>
     (case strstr buf p [backslash, CHR ''t''] of
        Some p2 \<Rightarrow> Some (p2, [tab])
      | None \<Rightarrow>
     (case strstr buf p [backslash, backslash] of
        Some p2 \<Rightarrow> Some (p2, [backslash])
      | None \<Rightarrow>
     (case strstr buf p [backslash, dquote] of
        Some p2 \<Rightarrow> Some (p2, [dquote])
      | None \<Rightarrow> None))))"

definition string_literal_text :: "string \<Rightarrow> error + string" where
  "string_literal_text text0 =
     (let buf = text0 @ [NUL];
          p = 1;
          buf = buf[p + strlen buf p - 1 := NUL]
      in case find_escape buf p of
           None \<Rightarrow> Inr (c_str buf p)
         | Some (p2, escp) \<Rightarrow>
             let buf = buf[p2 := NUL];
                 p2 = p2 + 2;
                 buf = strncat_literal buf p escp 3
             in (case strncat_within buf p p2 (strlen buf p2 + 1) of
                   Inl e \<Rightarrow> Inl e
                 | Inr buf \<Rightarrow> Inr (c_str buf p)))"

definition parse_lit :: "TokenQueue \<Rightarrow> error + (ASTNode \<times> TokenQueue)" where
  "parse_lit input =
     (if TokenQueue_is_empty input
      then Inl (Error_throw ''Unexpected end of input (expected DEC, HEX, STR, false, or true)'')
      else (case get_next_token_line input of
              Inl e \<Rightarrow> Inl e
            | Inr line \<Rightarrow>
      if check_next_token_type input DECLIT then
        (case TokenQueue_remove input of
           Inl e \<Rightarrow> Inl e
         | Inr (token, input1) \<Rightarrow>
             Inr (LiteralNode_new_int (int_of_long (strtol (tok_text token) 10)) line, input1))
      else if check_next_token_type input HEXLIT then
        (case TokenQueue_remove input of
           Inl e \<Rightarrow> Inl e
         | Inr (token, input1) \<Rightarrow>
             Inr (LiteralNode_new_int (int_of_long (strtol (tok_text token) 16)) line, input1))
      else if check_next_token_type input KEY then
        (if check_next_token input KEY ''true'' then
           (case TokenQueue_remove input of
              Inl e \<Rightarrow> Inl e
            | Inr (token, input1) \<Rightarrow> Inr (LiteralNode_new_bool True line, input1))
         else
           (case TokenQueue_remove input of
              Inl e \<Rightarrow> Inl e
            | Inr (token, input1) \<Rightarrow> Inr (LiteralNode_new_bool False line, input1)))
      else
        (case TokenQueue_remove input of
           Inl e \<Rightarrow> Inl e
         | Inr (token, input1) \<Rightarrow>
             (case string_literal_text (tok_text token) of
                Inl e \<Rightarrow> Inl e
              | Inr s \<Rightarrow> Inr (LiteralNode_new_string s line, input1)))))"

section \<open>Variable declarations and parameters\<close>

definition parse_vardecl :: "TokenQueue \<Rightarrow> error + (ASTNode \<times> TokenQueue)" where
  "parse_vardecl input =
     (if TokenQueue_is_empty input
      then Inl (Error_throw ''Unexpected end of input (expected type)'')
      else (case get_next_token_line input of
              Inl e \<Rightarrow> Inl e
            | Inr line \<Rightarrow>
      (case parse_type input of
         Inl e \<Rightarrow> Inl e
       | Inr (type, input1) \<Rightarrow>
      (case parse_id input1 of
         Inl e \<Rightarrow> Inl e
       | Inr (buffer, input2) \<Rightarrow>
      if check_next_token input2 SYM ''['' then
        (case match_and_discard_next_token input2 SYM ''['' of
           Inl e \<Rightarrow> Inl e
         | Inr input3 \<Rightarrow>
        (case TokenQueue_remove input3 of
           Inl e \<Rightarrow> Inl e
         | Inr (token, input4) \<Rightarrow>
        (case match_and_discard_next_token input4 SYM '']'' of
           Inl e \<Rightarrow> Inl e
         | Inr input5 \<Rightarrow>
        (case match_and_discard_next_token input5 SYM '';'' of
           Inl e \<Rightarrow> Inl e
         | Inr input6 \<Rightarrow>
             Inr (VarDeclNode_new buffer type True
                    (int_of_long (strtol (tok_text token) 10)) line, input6)))))
      else
        (case match_and_discard_next_token input2 SYM '';'' of
           Inl e \<Rightarrow> Inl e
         | Inr input3 \<Rightarrow> Inr (VarDeclNode_new buffer type False 1 line, input3))))))"

text \<open>
  The loop of \<open>parse_params\<close> runs until the next token is \<open>)\<close>. Every turn removes the
  comma, a type and an identifier, so the recursion is on the length of the queue.
\<close>

function parse_params_loop ::
  "(string \<times> DecafType) list \<Rightarrow> TokenQueue \<Rightarrow> error + ((string \<times> DecafType) list \<times> TokenQueue)"
where
  "parse_params_loop params input =
     (if \<not> check_next_token input SYM '')'' then
        (case match_and_discard_next_token input SYM '','' of
           Inl e \<Rightarrow> Inl e
         | Inr input1 \<Rightarrow>
        (case parse_type input1 of
           Inl e \<Rightarrow> Inl e
         | Inr (type, input2) \<Rightarrow>
        (case parse_id input2 of
           Inl e \<Rightarrow> Inl e
         | Inr (buffer, input3) \<Rightarrow> parse_params_loop (params @ [(buffer, type)]) input3)))
      else Inr (params, input))"
  by pat_completeness auto

termination
  by (relation "measure (\<lambda>(params, input). length input)")
     (auto simp: match_and_discard_next_token_def parse_type_def parse_id_def
                 TokenQueue_is_empty_def TokenQueue_remove_def
           split: if_splits list.splits sum.splits)

definition parse_params ::
  "TokenQueue \<Rightarrow> error + ((string \<times> DecafType) list \<times> TokenQueue)" where
  "parse_params input =
     (if TokenQueue_is_empty input
      then Inl (Error_throw ''Unexpected end of input (expected type)'')
      else (case parse_type input of
              Inl e \<Rightarrow> Inl e
            | Inr (type, input1) \<Rightarrow>
           (case parse_id input1 of
              Inl e \<Rightarrow> Inl e
            | Inr (buffer, input2) \<Rightarrow>
                if check_next_token input2 SYM '',''
                then parse_params_loop [(buffer, type)] input2
                else Inr ([(buffer, type)], input2))))"

section \<open>Expressions\<close>

text \<open>
  The condition \<open>check_next_token_type(input, ID) && token_str_eq(input->head->next->text, "(")\<close>
  of \<open>parse_base_expr\<close> and \<open>parse_statement\<close>. The right operand is evaluated only when
  the next token is an identifier; nothing checks that a second token exists.
\<close>

definition check_id_then_paren :: "TokenQueue \<Rightarrow> error + bool" where
  "check_id_then_paren input =
     (if check_next_token_type input ID
      then (case head_next_text input of
              Inl e \<Rightarrow> Inl e
            | Inr nt \<Rightarrow> Inr (token_str_eq nt ''(''))
      else Inr False)"

text \<open>
  The grammar rules call each other recursively, so they are one mutually recursive
  definition. Each function takes a recursion budget as its first argument, passes one
  less to every function it calls, and returns \<open>Out_of_fuel\<close> at zero; every \<open>while\<close>
  loop is the function named after its rule with \<open>_loop\<close>, which takes the loop's local
  variables as arguments. The budget is not part of the program: the results below are
  stated for every budget above a bound.
\<close>

function parse_args :: "nat \<Rightarrow> TokenQueue \<Rightarrow> error + (ASTNode list \<times> TokenQueue)"
  and parse_args_loop ::
    "nat \<Rightarrow> ASTNode list \<Rightarrow> TokenQueue \<Rightarrow> error + (ASTNode list \<times> TokenQueue)"
  and parse_funccall :: "nat \<Rightarrow> TokenQueue \<Rightarrow> error + (ASTNode \<times> TokenQueue)"
  and parse_base_expr :: "nat \<Rightarrow> TokenQueue \<Rightarrow> error + (ASTNode \<times> TokenQueue)"
  and parse_neg :: "nat \<Rightarrow> TokenQueue \<Rightarrow> error + (ASTNode \<times> TokenQueue)"
  and parse_mult :: "nat \<Rightarrow> TokenQueue \<Rightarrow> error + (ASTNode \<times> TokenQueue)"
  and parse_mult_loop ::
    "nat \<Rightarrow> int \<Rightarrow> ASTNode \<Rightarrow> TokenQueue \<Rightarrow> error + (ASTNode \<times> TokenQueue)"
  and parse_arith :: "nat \<Rightarrow> TokenQueue \<Rightarrow> error + (ASTNode \<times> TokenQueue)"
  and parse_arith_loop ::
    "nat \<Rightarrow> int \<Rightarrow> ASTNode \<Rightarrow> TokenQueue \<Rightarrow> error + (ASTNode \<times> TokenQueue)"
  and parse_relational :: "nat \<Rightarrow> TokenQueue \<Rightarrow> error + (ASTNode \<times> TokenQueue)"
  and parse_relational_loop ::
    "nat \<Rightarrow> int \<Rightarrow> ASTNode \<Rightarrow> TokenQueue \<Rightarrow> error + (ASTNode \<times> TokenQueue)"
  and parse_equality :: "nat \<Rightarrow> TokenQueue \<Rightarrow> error + (ASTNode \<times> TokenQueue)"
  and parse_equality_loop ::
    "nat \<Rightarrow> int \<Rightarrow> ASTNode \<Rightarrow> TokenQueue \<Rightarrow> error + (ASTNode \<times> TokenQueue)"
  and parse_and :: "nat \<Rightarrow> TokenQueue \<Rightarrow> error + (ASTNode \<times> TokenQueue)"
  and parse_and_loop ::
    "nat \<Rightarrow> int \<Rightarrow> ASTNode \<Rightarrow> TokenQueue \<Rightarrow> error + (ASTNode \<times> TokenQueue)"
  and parse_or :: "nat \<Rightarrow> TokenQueue \<Rightarrow> error + (ASTNode \<times> TokenQueue)"
  and parse_or_loop ::
    "nat \<Rightarrow> int \<Rightarrow> ASTNode \<Rightarrow> TokenQueue \<Rightarrow> error + (ASTNode \<times> TokenQueue)"
  and parse_expr :: "nat \<Rightarrow> TokenQueue \<Rightarrow> error + (ASTNode \<times> TokenQueue)"
  and parse_loc :: "nat \<Rightarrow> TokenQueue \<Rightarrow> error + (ASTNode \<times> TokenQueue)"
where
  "parse_args 0 input = Inl Out_of_fuel"
| "parse_args (Suc n) input =
     (if TokenQueue_is_empty input
      then Inl (Error_throw ''Unexpected end of input (expected expr)'')
      else (case parse_expr n input of
              Inl e \<Rightarrow> Inl e
            | Inr (expr, input1) \<Rightarrow>
                if check_next_token input1 SYM '',''
                then parse_args_loop n [expr] input1
                else Inr ([expr], input1)))"
| "parse_args_loop 0 args input = Inl Out_of_fuel"
| "parse_args_loop (Suc n) args input =
     (if \<not> check_next_token input SYM '')'' then
        (case match_and_discard_next_token input SYM '','' of
           Inl e \<Rightarrow> Inl e
         | Inr input1 \<Rightarrow>
             (case parse_expr n input1 of
                Inl e \<Rightarrow> Inl e
              | Inr (expr, input2) \<Rightarrow> parse_args_loop n (args @ [expr]) input2))
      else Inr (args, input))"
| "parse_funccall 0 input = Inl Out_of_fuel"
| "parse_funccall (Suc n) input =
     (if TokenQueue_is_empty input
      then Inl (Error_throw ''Unexpected end of input (expected ID)'')
      else (case get_next_token_line input of
              Inl e \<Rightarrow> Inl e
            | Inr line \<Rightarrow>
      (case parse_id input of
         Inl e \<Rightarrow> Inl e
       | Inr (buffer, input1) \<Rightarrow>
      (case match_and_discard_next_token input1 SYM ''('' of
         Inl e \<Rightarrow> Inl e
       | Inr input2 \<Rightarrow>
      (case (if \<not> check_next_token input2 SYM '')'' then parse_args n input2
             else Inr ([], input2)) of
         Inl e \<Rightarrow> Inl e
       | Inr (args, input3) \<Rightarrow>
      (case match_and_discard_next_token input3 SYM '')'' of
         Inl e \<Rightarrow> Inl e
       | Inr input4 \<Rightarrow> Inr (FuncCallNode_new buffer args line, input4)))))))"
| "parse_base_expr 0 input = Inl Out_of_fuel"
| "parse_base_expr (Suc n) input =
     (if TokenQueue_is_empty input
      then Inl (Error_throw
        ''Unexpected end of input (expected another expression, location, function call, or literal'')
      else (case get_next_token_line input of
              Inl e \<Rightarrow> Inl e
            | Inr line \<Rightarrow>
      if check_next_token input SYM ''('' then
        (case match_and_discard_next_token input SYM ''('' of
           Inl e \<Rightarrow> Inl e
         | Inr input1 \<Rightarrow>
        (case parse_expr n input1 of
           Inl e \<Rightarrow> Inl e
         | Inr (nd, input2) \<Rightarrow>
        (case match_and_discard_next_token input2 SYM '')'' of
           Inl e \<Rightarrow> Inl e
         | Inr input3 \<Rightarrow> Inr (nd, input3))))
      else (case check_id_then_paren input of
              Inl e \<Rightarrow> Inl e
            | Inr is_call \<Rightarrow>
      if is_call then parse_funccall n input
      else if check_next_token_type input ID then parse_loc n input
      else if check_next_token_type input DECLIT \<or> check_next_token_type input HEXLIT
              \<or> check_next_token_type input STRLIT \<or> check_next_token input KEY ''true''
              \<or> check_next_token input KEY ''false''
      then parse_lit input
      else (case TokenQueue_remove input of
              Inl e \<Rightarrow> Inl e
            | Inr (t, input1) \<Rightarrow> Inl (Invalid_base_expression (tok_text t) line)))))"
| "parse_neg 0 input = Inl Out_of_fuel"
| "parse_neg (Suc n) input =
     (if TokenQueue_is_empty input
      then Inl (Error_throw ''Unexpected end of input (expected unary operator: - or !)'')
      else (case get_next_token_line input of
              Inl e \<Rightarrow> Inl e
            | Inr line \<Rightarrow>
      if check_next_token input SYM ''-'' \<or> check_next_token input SYM ''!'' then
        (if check_next_token input SYM ''-'' then
           (case match_and_discard_next_token input SYM ''-'' of
              Inl e \<Rightarrow> Inl e
            | Inr input1 \<Rightarrow>
                (case parse_base_expr n input1 of
                   Inl e \<Rightarrow> Inl e
                 | Inr (child, input2) \<Rightarrow> Inr (UnaryOpNode_new NEGOP child line, input2)))
         else
           (case match_and_discard_next_token input SYM ''!'' of
              Inl e \<Rightarrow> Inl e
            | Inr input1 \<Rightarrow>
                (case parse_base_expr n input1 of
                   Inl e \<Rightarrow> Inl e
                 | Inr (child, input2) \<Rightarrow> Inr (UnaryOpNode_new NOTOP child line, input2))))
      else parse_base_expr n input))"
| "parse_mult 0 input = Inl Out_of_fuel"
| "parse_mult (Suc n) input =
     (if TokenQueue_is_empty input then Inl (Error_throw ''Unexpected end of input'')
      else (case get_next_token_line input of
              Inl e \<Rightarrow> Inl e
            | Inr line \<Rightarrow>
                (case parse_neg n input of
                   Inl e \<Rightarrow> Inl e
                 | Inr (root, input1) \<Rightarrow> parse_mult_loop n line root input1)))"
| "parse_mult_loop 0 line root input = Inl Out_of_fuel"
| "parse_mult_loop (Suc n) line root input =
     (if check_next_token input SYM ''*'' \<or> check_next_token input SYM ''/'' \<or> check_next_token input SYM ''%'' then
        (if check_next_token input SYM ''*'' then
          (case match_and_discard_next_token input SYM ''*'' of
            Inl e \<Rightarrow> Inl e
          | Inr input1 \<Rightarrow>
              (case parse_neg n input1 of
                 Inl e \<Rightarrow> Inl e
               | Inr (right, input2) \<Rightarrow>
                   parse_mult_loop n line (BinaryOpNode_new MULOP root right line) input2))
        else if check_next_token input SYM ''/'' then
          (case match_and_discard_next_token input SYM ''/'' of
            Inl e \<Rightarrow> Inl e
          | Inr input1 \<Rightarrow>
              (case parse_neg n input1 of
                 Inl e \<Rightarrow> Inl e
               | Inr (right, input2) \<Rightarrow>
                   parse_mult_loop n line (BinaryOpNode_new DIVOP root right line) input2))
        else 
          (case match_and_discard_next_token input SYM ''%'' of
            Inl e \<Rightarrow> Inl e
          | Inr input1 \<Rightarrow>
              (case parse_neg n input1 of
                 Inl e \<Rightarrow> Inl e
               | Inr (right, input2) \<Rightarrow>
                   parse_mult_loop n line (BinaryOpNode_new MODOP root right line) input2)))
      else Inr (root, input))"
| "parse_arith 0 input = Inl Out_of_fuel"
| "parse_arith (Suc n) input =
     (if TokenQueue_is_empty input then Inl (Error_throw ''Unexpected end of input'')
      else (case get_next_token_line input of
              Inl e \<Rightarrow> Inl e
            | Inr line \<Rightarrow>
                (case parse_mult n input of
                   Inl e \<Rightarrow> Inl e
                 | Inr (root, input1) \<Rightarrow> parse_arith_loop n line root input1)))"
| "parse_arith_loop 0 line root input = Inl Out_of_fuel"
| "parse_arith_loop (Suc n) line root input =
     (if check_next_token input SYM ''+'' \<or> check_next_token input SYM ''-'' then
        (if check_next_token input SYM ''+'' then
          (case match_and_discard_next_token input SYM ''+'' of
            Inl e \<Rightarrow> Inl e
          | Inr input1 \<Rightarrow>
              (case parse_mult n input1 of
                 Inl e \<Rightarrow> Inl e
               | Inr (right, input2) \<Rightarrow>
                   parse_arith_loop n line (BinaryOpNode_new ADDOP root right line) input2))
        else 
          (case match_and_discard_next_token input SYM ''-'' of
            Inl e \<Rightarrow> Inl e
          | Inr input1 \<Rightarrow>
              (case parse_mult n input1 of
                 Inl e \<Rightarrow> Inl e
               | Inr (right, input2) \<Rightarrow>
                   parse_arith_loop n line (BinaryOpNode_new SUBOP root right line) input2)))
      else Inr (root, input))"
| "parse_relational 0 input = Inl Out_of_fuel"
| "parse_relational (Suc n) input =
     (if TokenQueue_is_empty input then Inl (Error_throw ''Unexpected end of input'')
      else (case get_next_token_line input of
              Inl e \<Rightarrow> Inl e
            | Inr line \<Rightarrow>
                (case parse_arith n input of
                   Inl e \<Rightarrow> Inl e
                 | Inr (root, input1) \<Rightarrow> parse_relational_loop n line root input1)))"
| "parse_relational_loop 0 line root input = Inl Out_of_fuel"
| "parse_relational_loop (Suc n) line root input =
     (if check_next_token input SYM ''<'' \<or> check_next_token input SYM ''<='' \<or> check_next_token input SYM ''>'' \<or> check_next_token input SYM ''>='' then
        (if check_next_token input SYM ''<'' then
          (case match_and_discard_next_token input SYM ''<'' of
            Inl e \<Rightarrow> Inl e
          | Inr input1 \<Rightarrow>
              (case parse_arith n input1 of
                 Inl e \<Rightarrow> Inl e
               | Inr (right, input2) \<Rightarrow>
                   parse_relational_loop n line (BinaryOpNode_new LTOP root right line) input2))
        else if check_next_token input SYM ''<='' then
          (case match_and_discard_next_token input SYM ''<='' of
            Inl e \<Rightarrow> Inl e
          | Inr input1 \<Rightarrow>
              (case parse_arith n input1 of
                 Inl e \<Rightarrow> Inl e
               | Inr (right, input2) \<Rightarrow>
                   parse_relational_loop n line (BinaryOpNode_new LEOP root right line) input2))
        else if check_next_token input SYM ''>'' then
          (case match_and_discard_next_token input SYM ''>'' of
            Inl e \<Rightarrow> Inl e
          | Inr input1 \<Rightarrow>
              (case parse_arith n input1 of
                 Inl e \<Rightarrow> Inl e
               | Inr (right, input2) \<Rightarrow>
                   parse_relational_loop n line (BinaryOpNode_new GTOP root right line) input2))
        else 
          (case match_and_discard_next_token input SYM ''>='' of
            Inl e \<Rightarrow> Inl e
          | Inr input1 \<Rightarrow>
              (case parse_arith n input1 of
                 Inl e \<Rightarrow> Inl e
               | Inr (right, input2) \<Rightarrow>
                   parse_relational_loop n line (BinaryOpNode_new GEOP root right line) input2)))
      else Inr (root, input))"
| "parse_equality 0 input = Inl Out_of_fuel"
| "parse_equality (Suc n) input =
     (if TokenQueue_is_empty input then Inl (Error_throw ''Unexpected end of input'')
      else (case get_next_token_line input of
              Inl e \<Rightarrow> Inl e
            | Inr line \<Rightarrow>
                (case parse_relational n input of
                   Inl e \<Rightarrow> Inl e
                 | Inr (root, input1) \<Rightarrow> parse_equality_loop n line root input1)))"
| "parse_equality_loop 0 line root input = Inl Out_of_fuel"
| "parse_equality_loop (Suc n) line root input =
     (if check_next_token input SYM ''=='' \<or> check_next_token input SYM ''!='' then
        (if check_next_token input SYM ''=='' then
          (case match_and_discard_next_token input SYM ''=='' of
            Inl e \<Rightarrow> Inl e
          | Inr input1 \<Rightarrow>
              (case parse_relational n input1 of
                 Inl e \<Rightarrow> Inl e
               | Inr (right, input2) \<Rightarrow>
                   parse_equality_loop n line (BinaryOpNode_new EQOP root right line) input2))
        else 
          (case match_and_discard_next_token input SYM ''!='' of
            Inl e \<Rightarrow> Inl e
          | Inr input1 \<Rightarrow>
              (case parse_relational n input1 of
                 Inl e \<Rightarrow> Inl e
               | Inr (right, input2) \<Rightarrow>
                   parse_equality_loop n line (BinaryOpNode_new NEQOP root right line) input2)))
      else Inr (root, input))"
| "parse_and 0 input = Inl Out_of_fuel"
| "parse_and (Suc n) input =
     (if TokenQueue_is_empty input then Inl (Error_throw ''Unexpected end of input'')
      else (case get_next_token_line input of
              Inl e \<Rightarrow> Inl e
            | Inr line \<Rightarrow>
                (case parse_equality n input of
                   Inl e \<Rightarrow> Inl e
                 | Inr (root, input1) \<Rightarrow> parse_and_loop n line root input1)))"
| "parse_and_loop 0 line root input = Inl Out_of_fuel"
| "parse_and_loop (Suc n) line root input =
     (if check_next_token input SYM ''&&'' then
        ((case match_and_discard_next_token input SYM ''&&'' of
            Inl e \<Rightarrow> Inl e
          | Inr input1 \<Rightarrow>
              (case parse_equality n input1 of
                 Inl e \<Rightarrow> Inl e
               | Inr (right, input2) \<Rightarrow>
                   parse_and_loop n line (BinaryOpNode_new ANDOP root right line) input2)))
      else Inr (root, input))"
| "parse_or 0 input = Inl Out_of_fuel"
| "parse_or (Suc n) input =
     (if TokenQueue_is_empty input then Inl (Error_throw ''Unexpected end of input'')
      else (case get_next_token_line input of
              Inl e \<Rightarrow> Inl e
            | Inr line \<Rightarrow>
                (case parse_and n input of
                   Inl e \<Rightarrow> Inl e
                 | Inr (root, input1) \<Rightarrow> parse_or_loop n line root input1)))"
| "parse_or_loop 0 line root input = Inl Out_of_fuel"
| "parse_or_loop (Suc n) line root input =
     (if check_next_token input SYM ''||'' then
        ((case match_and_discard_next_token input SYM ''||'' of
            Inl e \<Rightarrow> Inl e
          | Inr input1 \<Rightarrow>
              (case parse_and n input1 of
                 Inl e \<Rightarrow> Inl e
               | Inr (right, input2) \<Rightarrow>
                   parse_or_loop n line (BinaryOpNode_new OROP root right line) input2)))
      else Inr (root, input))"
| "parse_expr 0 input = Inl Out_of_fuel"
| "parse_expr (Suc n) input =
     (if TokenQueue_is_empty input then Inl (Error_throw ''Unexpected end of input'')
      else parse_or n input)"
| "parse_loc 0 input = Inl Out_of_fuel"
| "parse_loc (Suc n) input =
     (if TokenQueue_is_empty input
      then Inl (Error_throw ''Location expected but not found at line 1'')
      else (case get_next_token_line input of
              Inl e \<Rightarrow> Inl e
            | Inr line \<Rightarrow>
      (case parse_id input of
         Inl e \<Rightarrow> Inl e
       | Inr (buffer, input1) \<Rightarrow>
      if check_next_token input1 SYM ''['' then
        (case match_and_discard_next_token input1 SYM ''['' of
           Inl e \<Rightarrow> Inl e
         | Inr input2 \<Rightarrow>
        (case parse_expr n input2 of
           Inl e \<Rightarrow> Inl e
         | Inr (index, input3) \<Rightarrow>
        (case match_and_discard_next_token input3 SYM '']'' of
           Inl e \<Rightarrow> Inl e
         | Inr input4 \<Rightarrow> Inr (LocationNode_new buffer (Some index) line, input4))))
      else Inr (LocationNode_new buffer None line, input1))))"
  by pat_completeness auto

termination
  by (relation "measure (case_sum (case_sum (case_sum (case_sum fst fst) (case_sum fst fst)) (case_sum (case_sum fst fst) (case_sum fst (case_sum fst fst)))) (case_sum (case_sum (case_sum fst fst) (case_sum fst (case_sum fst fst))) (case_sum (case_sum fst fst) (case_sum fst (case_sum fst fst)))))") auto

section \<open>Statements and blocks\<close>

text \<open>
  \<open>parse_conditional\<close> parses what follows \<open>else\<close> with \<open>parse_expr\<close>. In
  \<open>parse_block\<close> the loop appends to the two lists \<open>vars\<close> and \<open>stmnts\<close>.
\<close>

function parse_conditional :: "nat \<Rightarrow> TokenQueue \<Rightarrow> error + (ASTNode \<times> TokenQueue)"
  and parse_while :: "nat \<Rightarrow> TokenQueue \<Rightarrow> error + (ASTNode \<times> TokenQueue)"
  and parse_statement :: "nat \<Rightarrow> TokenQueue \<Rightarrow> error + (ASTNode \<times> TokenQueue)"
  and parse_block :: "nat \<Rightarrow> TokenQueue \<Rightarrow> error + (ASTNode \<times> TokenQueue)"
  and parse_block_loop ::
    "nat \<Rightarrow> ASTNode list \<Rightarrow> ASTNode list \<Rightarrow> TokenQueue
      \<Rightarrow> error + ((ASTNode list \<times> ASTNode list) \<times> TokenQueue)"
where
  "parse_conditional 0 input = Inl Out_of_fuel"
| "parse_conditional (Suc n) input =
     (if TokenQueue_is_empty input
      then Inl (Error_throw ''Conditional expected but not found at line 1'')
      else (case get_next_token_line input of
              Inl e \<Rightarrow> Inl e
            | Inr line \<Rightarrow>
      (case TokenQueue_remove input of
         Inl e \<Rightarrow> Inl e
       | Inr (token, input1) \<Rightarrow>
      (case match_and_discard_next_token input1 SYM ''('' of
         Inl e \<Rightarrow> Inl e
       | Inr input2 \<Rightarrow>
      (case parse_expr n input2 of
         Inl e \<Rightarrow> Inl e
       | Inr (condition, input3) \<Rightarrow>
      (case match_and_discard_next_token input3 SYM '')'' of
         Inl e \<Rightarrow> Inl e
       | Inr input4 \<Rightarrow>
      (case parse_block n input4 of
         Inl e \<Rightarrow> Inl e
       | Inr (if_block, input5) \<Rightarrow>
      (case (if check_next_token input5 KEY ''else'' then
               (case match_and_discard_next_token input5 KEY ''else'' of
                  Inl e \<Rightarrow> Inl e
                | Inr input6 \<Rightarrow>
                    (case parse_expr n input6 of
                       Inl e \<Rightarrow> Inl e
                     | Inr (nd, input7) \<Rightarrow> Inr (Some nd, input7)))
             else Inr (None, input5)) of
         Inl e \<Rightarrow> Inl e
       | Inr (else_block, input8) \<Rightarrow>
           Inr (ConditionalNode_new condition if_block else_block line, input8)))))))))"
| "parse_while 0 input = Inl Out_of_fuel"
| "parse_while (Suc n) input =
     (if TokenQueue_is_empty input
      then Inl (Error_throw ''While loop expected but not found at line 1'')
      else (case get_next_token_line input of
              Inl e \<Rightarrow> Inl e
            | Inr line \<Rightarrow>
      (case TokenQueue_remove input of
         Inl e \<Rightarrow> Inl e
       | Inr (token, input1) \<Rightarrow>
      (case match_and_discard_next_token input1 SYM ''('' of
         Inl e \<Rightarrow> Inl e
       | Inr input2 \<Rightarrow>
      (case parse_expr n input2 of
         Inl e \<Rightarrow> Inl e
       | Inr (expr, input3) \<Rightarrow>
      (case match_and_discard_next_token input3 SYM '')'' of
         Inl e \<Rightarrow> Inl e
       | Inr input4 \<Rightarrow>
      (case parse_block n input4 of
         Inl e \<Rightarrow> Inl e
       | Inr (block, input5) \<Rightarrow> Inr (WhileLoopNode_new expr block line, input5))))))))"
| "parse_statement 0 input = Inl Out_of_fuel"
| "parse_statement (Suc n) input =
     (if TokenQueue_is_empty input then Inl (Error_throw ''Unexpected end of input'')
      else (case get_next_token_line input of
              Inl e \<Rightarrow> Inl e
            | Inr line \<Rightarrow>
      if check_next_token input KEY ''break'' then
        (case TokenQueue_remove input of
           Inl e \<Rightarrow> Inl e
         | Inr (token, input1) \<Rightarrow>
        (case match_and_discard_next_token input1 SYM '';'' of
           Inl e \<Rightarrow> Inl e
         | Inr input2 \<Rightarrow> Inr (BreakNode_new line, input2)))
      else if check_next_token input KEY ''continue'' then
        (case TokenQueue_remove input of
           Inl e \<Rightarrow> Inl e
         | Inr (token, input1) \<Rightarrow>
        (case match_and_discard_next_token input1 SYM '';'' of
           Inl e \<Rightarrow> Inl e
         | Inr input2 \<Rightarrow> Inr (ContinueNode_new line, input2)))
      else if check_next_token input KEY ''return'' then
        (case TokenQueue_remove input of
           Inl e \<Rightarrow> Inl e
         | Inr (token, input1) \<Rightarrow>
        (case (if \<not> check_next_token input1 SYM '';'' then
                 (case parse_expr n input1 of
                    Inl e \<Rightarrow> Inl e
                  | Inr (nd, input2) \<Rightarrow> Inr (Some nd, input2))
               else Inr (None, input1)) of
           Inl e \<Rightarrow> Inl e
         | Inr (val, input3) \<Rightarrow>
        (case match_and_discard_next_token input3 SYM '';'' of
           Inl e \<Rightarrow> Inl e
         | Inr input4 \<Rightarrow> Inr (ReturnNode_new val line, input4))))
      else if check_next_token input KEY ''while'' then parse_while n input
      else if check_next_token input KEY ''if'' then parse_conditional n input
      else (case check_id_then_paren input of
              Inl e \<Rightarrow> Inl e
            | Inr is_call \<Rightarrow>
      if is_call then
        (case parse_funccall n input of
           Inl e \<Rightarrow> Inl e
         | Inr (nd, input1) \<Rightarrow>
        (case match_and_discard_next_token input1 SYM '';'' of
           Inl e \<Rightarrow> Inl e
         | Inr input2 \<Rightarrow> Inr (nd, input2)))
      else if check_next_token_type input ID then
        (case parse_loc n input of
           Inl e \<Rightarrow> Inl e
         | Inr (loc, input1) \<Rightarrow>
        (case match_and_discard_next_token input1 SYM ''='' of
           Inl e \<Rightarrow> Inl e
         | Inr input2 \<Rightarrow>
        (case parse_expr n input2 of
           Inl e \<Rightarrow> Inl e
         | Inr (val, input3) \<Rightarrow>
        (case match_and_discard_next_token input3 SYM '';'' of
           Inl e \<Rightarrow> Inl e
         | Inr input4 \<Rightarrow> Inr (AssignmentNode_new loc val line, input4)))))
      else Inl (Invalid_statement line))))"
| "parse_block 0 input = Inl Out_of_fuel"
| "parse_block (Suc n) input =
     (if TokenQueue_is_empty input then Inl (Unexpected_end_expected ''{'')
      else (case get_next_token_line input of
              Inl e \<Rightarrow> Inl e
            | Inr line \<Rightarrow>
      (case match_and_discard_next_token input SYM ''{'' of
         Inl e \<Rightarrow> Inl e
       | Inr input1 \<Rightarrow>
      if check_next_token input1 SYM ''}'' then
        (case match_and_discard_next_token input1 SYM ''}'' of
           Inl e \<Rightarrow> Inl e
         | Inr input2 \<Rightarrow> Inr (BlockNode_new [] [] line, input2))
      else
        (case parse_block_loop n [] [] input1 of
           Inl e \<Rightarrow> Inl e
         | Inr ((vars, stmnts), input2) \<Rightarrow>
        (case match_and_discard_next_token input2 SYM ''}'' of
           Inl e \<Rightarrow> Inl e
         | Inr input3 \<Rightarrow> Inr (BlockNode_new vars stmnts line, input3))))))"
| "parse_block_loop 0 vars stmnts input = Inl Out_of_fuel"
| "parse_block_loop (Suc n) vars stmnts input =
     (if \<not> check_next_token input SYM ''}'' then
        (if check_next_token input KEY ''int'' \<or> check_next_token input KEY ''bool''
            \<or> check_next_token input KEY ''void'' then
           (case parse_vardecl input of
              Inl e \<Rightarrow> Inl e
            | Inr (var, input1) \<Rightarrow> parse_block_loop n (vars @ [var]) stmnts input1)
         else
           (case parse_statement n input of
              Inl e \<Rightarrow> Inl e
            | Inr (stmnt, input1) \<Rightarrow> parse_block_loop n vars (stmnts @ [stmnt]) input1))
      else Inr ((vars, stmnts), input))"
  by pat_completeness auto

termination
  by (relation "measure (case_sum (case_sum fst fst) (case_sum fst (case_sum fst fst)))") auto

section \<open>Functions and the program\<close>

definition parse_funcdecl :: "nat \<Rightarrow> TokenQueue \<Rightarrow> error + (ASTNode \<times> TokenQueue)" where
  "parse_funcdecl n input =
     (if TokenQueue_is_empty input then Inl (Unexpected_end_expected ''def'')
      else (case get_next_token_line input of
              Inl e \<Rightarrow> Inl e
            | Inr line \<Rightarrow>
      (case match_and_discard_next_token input KEY ''def'' of
         Inl e \<Rightarrow> Inl e
       | Inr input1 \<Rightarrow>
      (case parse_type input1 of
         Inl e \<Rightarrow> Inl e
       | Inr (type, input2) \<Rightarrow>
      (case parse_id input2 of
         Inl e \<Rightarrow> Inl e
       | Inr (buffer, input3) \<Rightarrow>
      (case match_and_discard_next_token input3 SYM ''('' of
         Inl e \<Rightarrow> Inl e
       | Inr input4 \<Rightarrow>
      (case (if \<not> check_next_token input4 SYM '')'' then parse_params input4
             else Inr ([], input4)) of
         Inl e \<Rightarrow> Inl e
       | Inr (params, input5) \<Rightarrow>
      (case match_and_discard_next_token input5 SYM '')'' of
         Inl e \<Rightarrow> Inl e
       | Inr input6 \<Rightarrow>
      (case parse_block n input6 of
         Inl e \<Rightarrow> Inl e
       | Inr (body, input7) \<Rightarrow>
           Inr (FuncDeclNode_new buffer type params body line, input7))))))))))"

fun parse_program_loop ::
  "nat \<Rightarrow> ASTNode list \<Rightarrow> ASTNode list \<Rightarrow> TokenQueue \<Rightarrow> error + (ASTNode \<times> TokenQueue)"
where
  "parse_program_loop 0 vars funcs input = Inl Out_of_fuel"
| "parse_program_loop (Suc n) vars funcs input =
     (if \<not> TokenQueue_is_empty input then
        (if check_next_token input KEY ''def'' then
           (case parse_funcdecl n input of
              Inl e \<Rightarrow> Inl e
            | Inr (nd, input1) \<Rightarrow> parse_program_loop n vars (funcs @ [nd]) input1)
         else
           (case parse_vardecl input of
              Inl e \<Rightarrow> Inl e
            | Inr (nd, input1) \<Rightarrow> parse_program_loop n (vars @ [nd]) funcs input1))
      else Inr (ProgramNode_new vars funcs, input))"

definition parse_program :: "nat \<Rightarrow> TokenQueue \<Rightarrow> error + (ASTNode \<times> TokenQueue)" where
  "parse_program n input = parse_program_loop n [] [] input"

text \<open>The argument of \<open>parse\<close> is a pointer to a queue; \<open>None\<close> is the null pointer.\<close>

definition parse :: "nat \<Rightarrow> TokenQueue option \<Rightarrow> error + (ASTNode \<times> TokenQueue)" where
  "parse n input =
     (case input of
        None \<Rightarrow> Inl (Error_throw ''TokenQueue is NULL there are no tokens to parse'')
      | Some q \<Rightarrow> parse_program n q)"

section \<open>Notions used to state the properties\<close>

text \<open>
  None of the definitions of this section is part of the program. \<open>fuel_le r r'\<close> says
  that \<open>r'\<close> is the result \<open>r\<close> unless \<open>r\<close> ran out of budget.
\<close>

definition fuel_le :: "error + 'a \<Rightarrow> error + 'a \<Rightarrow> bool" where
  "fuel_le r r' = (r = Inl Out_of_fuel \<or> r' = r)"

text \<open>
  The six binary operator levels of the expression grammar, lowest tier last in the
  source: for each level its operator table (which operator a symbol stands for), the rule
  that parses its operands, its loop and its rule.
\<close>

datatype level =
  Mult_level | Arith_level | Relational_level | Equality_level | And_level | Or_level

fun level_ops :: "level \<Rightarrow> string \<Rightarrow> BinaryOpType option" where
  "level_ops Mult_level s =
     (if s = ''*'' then Some MULOP else if s = ''/'' then Some DIVOP
      else if s = ''%'' then Some MODOP else None)"
| "level_ops Arith_level s =
     (if s = ''+'' then Some ADDOP else if s = ''-'' then Some SUBOP else None)"
| "level_ops Relational_level s =
     (if s = ''<'' then Some LTOP else if s = ''<='' then Some LEOP
      else if s = ''>'' then Some GTOP else if s = ''>='' then Some GEOP else None)"
| "level_ops Equality_level s =
     (if s = ''=='' then Some EQOP else if s = ''!='' then Some NEQOP else None)"
| "level_ops And_level s = (if s = ''&&'' then Some ANDOP else None)"
| "level_ops Or_level s = (if s = ''||'' then Some OROP else None)"

fun level_operand :: "level \<Rightarrow> nat \<Rightarrow> TokenQueue \<Rightarrow> error + (ASTNode \<times> TokenQueue)" where
  "level_operand Mult_level = parse_neg"
| "level_operand Arith_level = parse_mult"
| "level_operand Relational_level = parse_arith"
| "level_operand Equality_level = parse_relational"
| "level_operand And_level = parse_equality"
| "level_operand Or_level = parse_and"

fun level_loop ::
  "level \<Rightarrow> nat \<Rightarrow> int \<Rightarrow> ASTNode \<Rightarrow> TokenQueue \<Rightarrow> error + (ASTNode \<times> TokenQueue)" where
  "level_loop Mult_level = parse_mult_loop"
| "level_loop Arith_level = parse_arith_loop"
| "level_loop Relational_level = parse_relational_loop"
| "level_loop Equality_level = parse_equality_loop"
| "level_loop And_level = parse_and_loop"
| "level_loop Or_level = parse_or_loop"

fun level_rule :: "level \<Rightarrow> nat \<Rightarrow> TokenQueue \<Rightarrow> error + (ASTNode \<times> TokenQueue)" where
  "level_rule Mult_level = parse_mult"
| "level_rule Arith_level = parse_arith"
| "level_rule Relational_level = parse_relational"
| "level_rule Equality_level = parse_equality"
| "level_rule And_level = parse_and"
| "level_rule Or_level = parse_or"

definition next_is_op :: "level \<Rightarrow> TokenQueue \<Rightarrow> bool" where
  "next_is_op lv input =
     (case input of
        [] \<Rightarrow> False
      | t # _ \<Rightarrow> tok_type t = SYM \<and> level_ops lv (tok_text t) \<noteq> None)"

text \<open>
  \<open>op_chain lv n input steps rest\<close>: the queue \<open>input\<close> continues an expression of level
  \<open>lv\<close> with the operators and operands \<open>steps\<close>, each operand parsed by the operand rule of
  the level (with budget \<open>n\<close>), and \<open>rest\<close>, which does not start with an operator of the
  level, is what remains. \<open>left_fold\<close> is the left-leaning tree over such a chain.
\<close>

fun op_chain ::
  "level \<Rightarrow> nat \<Rightarrow> TokenQueue \<Rightarrow> (BinaryOpType \<times> ASTNode) list \<Rightarrow> TokenQueue \<Rightarrow> bool" where
  "op_chain lv n input [] rest = (input = rest \<and> \<not> next_is_op lv input)"
| "op_chain lv n input ((opr, right) # steps) rest =
     (case input of
        [] \<Rightarrow> False
      | t # input1 \<Rightarrow>
          tok_type t = SYM \<and> level_ops lv (tok_text t) = Some opr \<and>
          (case level_operand lv n input1 of
             Inl e \<Rightarrow> False
           | Inr (nd, input2) \<Rightarrow> nd = right \<and> op_chain lv n input2 steps rest))"

definition left_fold :: "int \<Rightarrow> ASTNode \<Rightarrow> (BinaryOpType \<times> ASTNode) list \<Rightarrow> ASTNode" where
  "left_fold line root steps =
     foldl (\<lambda>acc (opr, right). BinaryOpNode_new opr acc right line) root steps"

text \<open>
  The spec's reading of a string literal: the first occurrence of an escape form is
  replaced, the forms being tried in the order \<open>\n\<close>, \<open>\t\<close>, \<open>\\\<close>, \<open>\"\<close>, and only the
  first form that occurs at all is replaced.
\<close>

fun replace_first :: "string \<Rightarrow> string \<Rightarrow> string \<Rightarrow> string option" where
  "replace_first needle repl [] = None"
| "replace_first needle repl (c # cs) =
     (if prefix needle (c # cs) then Some (repl @ drop (length needle) (c # cs))
      else map_option ((#) c) (replace_first needle repl cs))"

definition unescape_once :: "string \<Rightarrow> string" where
  "unescape_once s =
     (case replace_first [backslash, CHR ''n''] [newline] s of
        Some r \<Rightarrow> r
      | None \<Rightarrow>
     (case replace_first [backslash, CHR ''t''] [tab] s of
        Some r \<Rightarrow> r
      | None \<Rightarrow>
     (case replace_first [backslash, backslash] [backslash] s of
        Some r \<Rightarrow> r
      | None \<Rightarrow>
     (case replace_first [backslash, dquote] [dquote] s of
        Some r \<Rightarrow> r
      | None \<Rightarrow> s))))"

text \<open>
  Where the escape that the code replaces stands in the body of a literal, and whether
  characters follow it.
\<close>

definition first_escape :: "string \<Rightarrow> nat option" where
  "first_escape s =
     (case find_first [backslash, CHR ''n''] s of
        Some i \<Rightarrow> Some i
      | None \<Rightarrow>
     (case find_first [backslash, CHR ''t''] s of
        Some i \<Rightarrow> Some i
      | None \<Rightarrow>
     (case find_first [backslash, backslash] s of
        Some i \<Rightarrow> Some i
      | None \<Rightarrow> find_first [backslash, dquote] s)))"

definition escape_before_end :: "string \<Rightarrow> bool" where
  "escape_before_end s = (case first_escape s of None \<Rightarrow> False | Some i \<Rightarrow> i + 2 < length s)"

text \<open>
  The integer a digit string denotes in a base, most significant digit first, and the
  strings that consist of digits of the base only.
\<close>

fun digits_value :: "nat \<Rightarrow> string \<Rightarrow> int" where
  "digits_value base [] = 0"
| "digits_value base (c # cs) =
     int (the (digit_of c)) * int base ^ length cs + digits_value base cs"

definition is_digits :: "nat \<Rightarrow> string \<Rightarrow> bool" where
  "is_digits base s =
     (s \<noteq> [] \<and> list_all (\<lambda>c. case digit_of c of None \<Rightarrow> False | Some d \<Rightarrow> d < base) s)"

text \<open>
  \<open>decl_chain n input ds\<close>: the queue \<open>input\<close> is exhausted by the top-level declarations
  \<open>ds\<close>, read one after the other: each is parsed (with budget \<open>n\<close>) as a function when the
  queue starts with the keyword \<open>def\<close> and as a variable otherwise, and nothing remains
  after the last. A declaration is listed with the flag that says whether it is a function.
\<close>

fun decl_chain :: "nat \<Rightarrow> TokenQueue \<Rightarrow> (bool \<times> ASTNode) list \<Rightarrow> bool" where
  "decl_chain n input [] = (input = [])"
| "decl_chain n input ((is_func, nd) # ds) =
     (input \<noteq> [] \<and> is_func = check_next_token input KEY ''def'' \<and>
      (case (if is_func then parse_funcdecl n input else parse_vardecl input) of
         Inl e \<Rightarrow> False
       | Inr (nd', input1) \<Rightarrow> nd' = nd \<and> decl_chain n input1 ds))"

definition globals_of :: "(bool \<times> ASTNode) list \<Rightarrow> ASTNode list" where
  "globals_of ds = map snd (filter (\<lambda>d. \<not> fst d) ds)"

definition functions_of :: "(bool \<times> ASTNode) list \<Rightarrow> ASTNode list" where
  "functions_of ds = map snd (filter fst ds)"

text \<open>
  \<open>settles F\<close>: from some budget on, the result \<open>F n\<close> no longer depends on the budget and
  is not \<open>Out_of_fuel\<close>. For a function of the model this says that the function of the
  program returns.
\<close>

definition settles :: "(nat \<Rightarrow> error + 'a) \<Rightarrow> bool" where
  "settles F = (\<exists>n. F n \<noteq> Inl Out_of_fuel \<and> (\<forall>k. F (n + k) = F n))"

section \<open>The recursion budget does not change a result\<close>

text \<open>
  A result other than \<open>Out_of_fuel\<close> is the result for every larger budget. The proof
  follows the shape of the definitions: a sequence of calls, a conditional and a pair
  pattern each preserve \<open>fuel_le\<close>.
\<close>

lemma fuel_le_refl: "fuel_le r r"
  by (simp add: fuel_le_def)

lemma fuel_le_trans: "fuel_le a b \<Longrightarrow> fuel_le b c \<Longrightarrow> fuel_le a c"
  by (auto simp: fuel_le_def)

lemma fuel_le_bind:
  "fuel_le r r' \<Longrightarrow> (\<And>x. fuel_le (k x) (k' x)) \<Longrightarrow>
   fuel_le (case r of Inl e \<Rightarrow> Inl e | Inr x \<Rightarrow> k x) (case r' of Inl e \<Rightarrow> Inl e | Inr x \<Rightarrow> k' x)"
  by (auto simp: fuel_le_def split: sum.splits)

lemma fuel_le_if:
  "(c \<Longrightarrow> fuel_le a a') \<Longrightarrow> (\<not> c \<Longrightarrow> fuel_le b b') \<Longrightarrow>
   fuel_le (if c then a else b) (if c then a' else b')"
  by simp

lemma fuel_le_prod:
  "(\<And>a b. fuel_le (f a b) (f' a b)) \<Longrightarrow>
   fuel_le (case p of (a, b) \<Rightarrow> f a b) (case p of (a, b) \<Rightarrow> f' a b)"
  by (cases p) simp

lemma fuel_le_some:
  "fuel_le r r' \<Longrightarrow>
   fuel_le (case r of Inl e \<Rightarrow> Inl e | Inr (nd, q) \<Rightarrow> Inr (Some nd, q))
           (case r' of Inl e \<Rightarrow> Inl e | Inr (nd, q) \<Rightarrow> Inr (Some nd, q))"
  by (auto simp: fuel_le_def split: sum.splits)

lemma expr_fuel_step:
  "(\<forall>input. fuel_le (parse_args n input) (parse_args (Suc n) input)) \<and>
   (\<forall>args input. fuel_le (parse_args_loop n args input) (parse_args_loop (Suc n) args input)) \<and>
   (\<forall>input. fuel_le (parse_funccall n input) (parse_funccall (Suc n) input)) \<and>
   (\<forall>input. fuel_le (parse_base_expr n input) (parse_base_expr (Suc n) input)) \<and>
   (\<forall>input. fuel_le (parse_neg n input) (parse_neg (Suc n) input)) \<and>
   (\<forall>input. fuel_le (parse_mult n input) (parse_mult (Suc n) input)) \<and>
   (\<forall>line root input. fuel_le (parse_mult_loop n line root input) (parse_mult_loop (Suc n) line root input)) \<and>
   (\<forall>input. fuel_le (parse_arith n input) (parse_arith (Suc n) input)) \<and>
   (\<forall>line root input. fuel_le (parse_arith_loop n line root input) (parse_arith_loop (Suc n) line root input)) \<and>
   (\<forall>input. fuel_le (parse_relational n input) (parse_relational (Suc n) input)) \<and>
   (\<forall>line root input. fuel_le (parse_relational_loop n line root input) (parse_relational_loop (Suc n) line root input)) \<and>
   (\<forall>input. fuel_le (parse_equality n input) (parse_equality (Suc n) input)) \<and>
   (\<forall>line root input. fuel_le (parse_equality_loop n line root input) (parse_equality_loop (Suc n) line root input)) \<and>
   (\<forall>input. fuel_le (parse_and n input) (parse_and (Suc n) input)) \<and>
   (\<forall>line root input. fuel_le (parse_and_loop n line root input) (parse_and_loop (Suc n) line root input)) \<and>
   (\<forall>input. fuel_le (parse_or n input) (parse_or (Suc n) input)) \<and>
   (\<forall>line root input. fuel_le (parse_or_loop n line root input) (parse_or_loop (Suc n) line root input)) \<and>
   (\<forall>input. fuel_le (parse_expr n input) (parse_expr (Suc n) input)) \<and>
   (\<forall>input. fuel_le (parse_loc n input) (parse_loc (Suc n) input))"
proof (induction n)
  case 0
  show ?case
    by (simp add: fuel_le_def)
next
  case (Suc n)
  have ih_parse_args: "fuel_le (parse_args n input) (parse_args (Suc n) input)" for input
    using Suc.IH by simp
  have ih_parse_args_loop: "fuel_le (parse_args_loop n args input) (parse_args_loop (Suc n) args input)" for args input
    using Suc.IH by simp
  have ih_parse_funccall: "fuel_le (parse_funccall n input) (parse_funccall (Suc n) input)" for input
    using Suc.IH by simp
  have ih_parse_base_expr: "fuel_le (parse_base_expr n input) (parse_base_expr (Suc n) input)" for input
    using Suc.IH by simp
  have ih_parse_neg: "fuel_le (parse_neg n input) (parse_neg (Suc n) input)" for input
    using Suc.IH by simp
  have ih_parse_mult: "fuel_le (parse_mult n input) (parse_mult (Suc n) input)" for input
    using Suc.IH by simp
  have ih_parse_mult_loop: "fuel_le (parse_mult_loop n line root input) (parse_mult_loop (Suc n) line root input)" for line root input
    using Suc.IH by simp
  have ih_parse_arith: "fuel_le (parse_arith n input) (parse_arith (Suc n) input)" for input
    using Suc.IH by simp
  have ih_parse_arith_loop: "fuel_le (parse_arith_loop n line root input) (parse_arith_loop (Suc n) line root input)" for line root input
    using Suc.IH by simp
  have ih_parse_relational: "fuel_le (parse_relational n input) (parse_relational (Suc n) input)" for input
    using Suc.IH by simp
  have ih_parse_relational_loop: "fuel_le (parse_relational_loop n line root input) (parse_relational_loop (Suc n) line root input)" for line root input
    using Suc.IH by simp
  have ih_parse_equality: "fuel_le (parse_equality n input) (parse_equality (Suc n) input)" for input
    using Suc.IH by simp
  have ih_parse_equality_loop: "fuel_le (parse_equality_loop n line root input) (parse_equality_loop (Suc n) line root input)" for line root input
    using Suc.IH by simp
  have ih_parse_and: "fuel_le (parse_and n input) (parse_and (Suc n) input)" for input
    using Suc.IH by simp
  have ih_parse_and_loop: "fuel_le (parse_and_loop n line root input) (parse_and_loop (Suc n) line root input)" for line root input
    using Suc.IH by simp
  have ih_parse_or: "fuel_le (parse_or n input) (parse_or (Suc n) input)" for input
    using Suc.IH by simp
  have ih_parse_or_loop: "fuel_le (parse_or_loop n line root input) (parse_or_loop (Suc n) line root input)" for line root input
    using Suc.IH by simp
  have ih_parse_expr: "fuel_le (parse_expr n input) (parse_expr (Suc n) input)" for input
    using Suc.IH by simp
  have ih_parse_loc: "fuel_le (parse_loc n input) (parse_loc (Suc n) input)" for input
    using Suc.IH by simp
  note ih = ih_parse_args ih_parse_args_loop ih_parse_funccall ih_parse_base_expr ih_parse_neg ih_parse_mult ih_parse_mult_loop ih_parse_arith ih_parse_arith_loop ih_parse_relational ih_parse_relational_loop ih_parse_equality ih_parse_equality_loop ih_parse_and ih_parse_and_loop ih_parse_or ih_parse_or_loop ih_parse_expr ih_parse_loc
  have step_parse_args: "fuel_le (parse_args (Suc n) input) (parse_args (Suc (Suc n)) input)" for input
    unfolding parse_args.simps(2) [of n input] parse_args.simps(2) [of "Suc n" input]
    by (intro fuel_le_bind fuel_le_if fuel_le_prod fuel_le_some ih fuel_le_refl)
  have step_parse_args_loop: "fuel_le (parse_args_loop (Suc n) args input) (parse_args_loop (Suc (Suc n)) args input)" for args input
    unfolding parse_args_loop.simps(2) [of n args input] parse_args_loop.simps(2) [of "Suc n" args input]
    by (intro fuel_le_bind fuel_le_if fuel_le_prod fuel_le_some ih fuel_le_refl)
  have step_parse_funccall: "fuel_le (parse_funccall (Suc n) input) (parse_funccall (Suc (Suc n)) input)" for input
    unfolding parse_funccall.simps(2) [of n input] parse_funccall.simps(2) [of "Suc n" input]
    by (intro fuel_le_bind fuel_le_if fuel_le_prod fuel_le_some ih fuel_le_refl)
  have step_parse_base_expr: "fuel_le (parse_base_expr (Suc n) input) (parse_base_expr (Suc (Suc n)) input)" for input
    unfolding parse_base_expr.simps(2) [of n input] parse_base_expr.simps(2) [of "Suc n" input]
    by (intro fuel_le_bind fuel_le_if fuel_le_prod fuel_le_some ih fuel_le_refl)
  have step_parse_neg: "fuel_le (parse_neg (Suc n) input) (parse_neg (Suc (Suc n)) input)" for input
    unfolding parse_neg.simps(2) [of n input] parse_neg.simps(2) [of "Suc n" input]
    by (intro fuel_le_bind fuel_le_if fuel_le_prod fuel_le_some ih fuel_le_refl)
  have step_parse_mult: "fuel_le (parse_mult (Suc n) input) (parse_mult (Suc (Suc n)) input)" for input
    unfolding parse_mult.simps(2) [of n input] parse_mult.simps(2) [of "Suc n" input]
    by (intro fuel_le_bind fuel_le_if fuel_le_prod fuel_le_some ih fuel_le_refl)
  have step_parse_mult_loop: "fuel_le (parse_mult_loop (Suc n) line root input) (parse_mult_loop (Suc (Suc n)) line root input)" for line root input
    unfolding parse_mult_loop.simps(2) [of n line root input] parse_mult_loop.simps(2) [of "Suc n" line root input]
    by (intro fuel_le_bind fuel_le_if fuel_le_prod fuel_le_some ih fuel_le_refl)
  have step_parse_arith: "fuel_le (parse_arith (Suc n) input) (parse_arith (Suc (Suc n)) input)" for input
    unfolding parse_arith.simps(2) [of n input] parse_arith.simps(2) [of "Suc n" input]
    by (intro fuel_le_bind fuel_le_if fuel_le_prod fuel_le_some ih fuel_le_refl)
  have step_parse_arith_loop: "fuel_le (parse_arith_loop (Suc n) line root input) (parse_arith_loop (Suc (Suc n)) line root input)" for line root input
    unfolding parse_arith_loop.simps(2) [of n line root input] parse_arith_loop.simps(2) [of "Suc n" line root input]
    by (intro fuel_le_bind fuel_le_if fuel_le_prod fuel_le_some ih fuel_le_refl)
  have step_parse_relational: "fuel_le (parse_relational (Suc n) input) (parse_relational (Suc (Suc n)) input)" for input
    unfolding parse_relational.simps(2) [of n input] parse_relational.simps(2) [of "Suc n" input]
    by (intro fuel_le_bind fuel_le_if fuel_le_prod fuel_le_some ih fuel_le_refl)
  have step_parse_relational_loop: "fuel_le (parse_relational_loop (Suc n) line root input) (parse_relational_loop (Suc (Suc n)) line root input)" for line root input
    unfolding parse_relational_loop.simps(2) [of n line root input] parse_relational_loop.simps(2) [of "Suc n" line root input]
    by (intro fuel_le_bind fuel_le_if fuel_le_prod fuel_le_some ih fuel_le_refl)
  have step_parse_equality: "fuel_le (parse_equality (Suc n) input) (parse_equality (Suc (Suc n)) input)" for input
    unfolding parse_equality.simps(2) [of n input] parse_equality.simps(2) [of "Suc n" input]
    by (intro fuel_le_bind fuel_le_if fuel_le_prod fuel_le_some ih fuel_le_refl)
  have step_parse_equality_loop: "fuel_le (parse_equality_loop (Suc n) line root input) (parse_equality_loop (Suc (Suc n)) line root input)" for line root input
    unfolding parse_equality_loop.simps(2) [of n line root input] parse_equality_loop.simps(2) [of "Suc n" line root input]
    by (intro fuel_le_bind fuel_le_if fuel_le_prod fuel_le_some ih fuel_le_refl)
  have step_parse_and: "fuel_le (parse_and (Suc n) input) (parse_and (Suc (Suc n)) input)" for input
    unfolding parse_and.simps(2) [of n input] parse_and.simps(2) [of "Suc n" input]
    by (intro fuel_le_bind fuel_le_if fuel_le_prod fuel_le_some ih fuel_le_refl)
  have step_parse_and_loop: "fuel_le (parse_and_loop (Suc n) line root input) (parse_and_loop (Suc (Suc n)) line root input)" for line root input
    unfolding parse_and_loop.simps(2) [of n line root input] parse_and_loop.simps(2) [of "Suc n" line root input]
    by (intro fuel_le_bind fuel_le_if fuel_le_prod fuel_le_some ih fuel_le_refl)
  have step_parse_or: "fuel_le (parse_or (Suc n) input) (parse_or (Suc (Suc n)) input)" for input
    unfolding parse_or.simps(2) [of n input] parse_or.simps(2) [of "Suc n" input]
    by (intro fuel_le_bind fuel_le_if fuel_le_prod fuel_le_some ih fuel_le_refl)
  have step_parse_or_loop: "fuel_le (parse_or_loop (Suc n) line root input) (parse_or_loop (Suc (Suc n)) line root input)" for line root input
    unfolding parse_or_loop.simps(2) [of n line root input] parse_or_loop.simps(2) [of "Suc n" line root input]
    by (intro fuel_le_bind fuel_le_if fuel_le_prod fuel_le_some ih fuel_le_refl)
  have step_parse_expr: "fuel_le (parse_expr (Suc n) input) (parse_expr (Suc (Suc n)) input)" for input
    unfolding parse_expr.simps(2) [of n input] parse_expr.simps(2) [of "Suc n" input]
    by (intro fuel_le_bind fuel_le_if fuel_le_prod fuel_le_some ih fuel_le_refl)
  have step_parse_loc: "fuel_le (parse_loc (Suc n) input) (parse_loc (Suc (Suc n)) input)" for input
    unfolding parse_loc.simps(2) [of n input] parse_loc.simps(2) [of "Suc n" input]
    by (intro fuel_le_bind fuel_le_if fuel_le_prod fuel_le_some ih fuel_le_refl)
  show ?case
    by (intro conjI allI step_parse_args step_parse_args_loop step_parse_funccall step_parse_base_expr step_parse_neg step_parse_mult step_parse_mult_loop step_parse_arith step_parse_arith_loop step_parse_relational step_parse_relational_loop step_parse_equality step_parse_equality_loop step_parse_and step_parse_and_loop step_parse_or step_parse_or_loop step_parse_expr step_parse_loc)
qed

lemma parse_args_fuel_step: "fuel_le (parse_args n input) (parse_args (Suc n) input)"
  using expr_fuel_step [of n] by simp

lemma parse_args_loop_fuel_step: "fuel_le (parse_args_loop n args input) (parse_args_loop (Suc n) args input)"
  using expr_fuel_step [of n] by simp

lemma parse_funccall_fuel_step: "fuel_le (parse_funccall n input) (parse_funccall (Suc n) input)"
  using expr_fuel_step [of n] by simp

lemma parse_base_expr_fuel_step: "fuel_le (parse_base_expr n input) (parse_base_expr (Suc n) input)"
  using expr_fuel_step [of n] by simp

lemma parse_neg_fuel_step: "fuel_le (parse_neg n input) (parse_neg (Suc n) input)"
  using expr_fuel_step [of n] by simp

lemma parse_mult_fuel_step: "fuel_le (parse_mult n input) (parse_mult (Suc n) input)"
  using expr_fuel_step [of n] by simp

lemma parse_mult_loop_fuel_step: "fuel_le (parse_mult_loop n line root input) (parse_mult_loop (Suc n) line root input)"
  using expr_fuel_step [of n] by simp

lemma parse_arith_fuel_step: "fuel_le (parse_arith n input) (parse_arith (Suc n) input)"
  using expr_fuel_step [of n] by simp

lemma parse_arith_loop_fuel_step: "fuel_le (parse_arith_loop n line root input) (parse_arith_loop (Suc n) line root input)"
  using expr_fuel_step [of n] by simp

lemma parse_relational_fuel_step: "fuel_le (parse_relational n input) (parse_relational (Suc n) input)"
  using expr_fuel_step [of n] by simp

lemma parse_relational_loop_fuel_step: "fuel_le (parse_relational_loop n line root input) (parse_relational_loop (Suc n) line root input)"
  using expr_fuel_step [of n] by simp

lemma parse_equality_fuel_step: "fuel_le (parse_equality n input) (parse_equality (Suc n) input)"
  using expr_fuel_step [of n] by simp

lemma parse_equality_loop_fuel_step: "fuel_le (parse_equality_loop n line root input) (parse_equality_loop (Suc n) line root input)"
  using expr_fuel_step [of n] by simp

lemma parse_and_fuel_step: "fuel_le (parse_and n input) (parse_and (Suc n) input)"
  using expr_fuel_step [of n] by simp

lemma parse_and_loop_fuel_step: "fuel_le (parse_and_loop n line root input) (parse_and_loop (Suc n) line root input)"
  using expr_fuel_step [of n] by simp

lemma parse_or_fuel_step: "fuel_le (parse_or n input) (parse_or (Suc n) input)"
  using expr_fuel_step [of n] by simp

lemma parse_or_loop_fuel_step: "fuel_le (parse_or_loop n line root input) (parse_or_loop (Suc n) line root input)"
  using expr_fuel_step [of n] by simp

lemma parse_expr_fuel_step: "fuel_le (parse_expr n input) (parse_expr (Suc n) input)"
  using expr_fuel_step [of n] by simp

lemma parse_loc_fuel_step: "fuel_le (parse_loc n input) (parse_loc (Suc n) input)"
  using expr_fuel_step [of n] by simp

lemma stmt_fuel_step:
  "(\<forall>input. fuel_le (parse_conditional n input) (parse_conditional (Suc n) input)) \<and>
   (\<forall>input. fuel_le (parse_while n input) (parse_while (Suc n) input)) \<and>
   (\<forall>input. fuel_le (parse_statement n input) (parse_statement (Suc n) input)) \<and>
   (\<forall>input. fuel_le (parse_block n input) (parse_block (Suc n) input)) \<and>
   (\<forall>vars stmnts input. fuel_le (parse_block_loop n vars stmnts input) (parse_block_loop (Suc n) vars stmnts input))"
proof (induction n)
  case 0
  show ?case
    by (simp add: fuel_le_def)
next
  case (Suc n)
  have ih_parse_conditional: "fuel_le (parse_conditional n input) (parse_conditional (Suc n) input)" for input
    using Suc.IH by simp
  have ih_parse_while: "fuel_le (parse_while n input) (parse_while (Suc n) input)" for input
    using Suc.IH by simp
  have ih_parse_statement: "fuel_le (parse_statement n input) (parse_statement (Suc n) input)" for input
    using Suc.IH by simp
  have ih_parse_block: "fuel_le (parse_block n input) (parse_block (Suc n) input)" for input
    using Suc.IH by simp
  have ih_parse_block_loop: "fuel_le (parse_block_loop n vars stmnts input) (parse_block_loop (Suc n) vars stmnts input)" for vars stmnts input
    using Suc.IH by simp
  note ih = ih_parse_conditional ih_parse_while ih_parse_statement ih_parse_block ih_parse_block_loop
  have step_parse_conditional: "fuel_le (parse_conditional (Suc n) input) (parse_conditional (Suc (Suc n)) input)" for input
    unfolding parse_conditional.simps(2) [of n input] parse_conditional.simps(2) [of "Suc n" input]
    by (intro fuel_le_bind fuel_le_if fuel_le_prod fuel_le_some ih parse_expr_fuel_step parse_funccall_fuel_step parse_loc_fuel_step fuel_le_refl)
  have step_parse_while: "fuel_le (parse_while (Suc n) input) (parse_while (Suc (Suc n)) input)" for input
    unfolding parse_while.simps(2) [of n input] parse_while.simps(2) [of "Suc n" input]
    by (intro fuel_le_bind fuel_le_if fuel_le_prod fuel_le_some ih parse_expr_fuel_step parse_funccall_fuel_step parse_loc_fuel_step fuel_le_refl)
  have step_parse_statement: "fuel_le (parse_statement (Suc n) input) (parse_statement (Suc (Suc n)) input)" for input
    unfolding parse_statement.simps(2) [of n input] parse_statement.simps(2) [of "Suc n" input]
    by (intro fuel_le_bind fuel_le_if fuel_le_prod fuel_le_some ih parse_expr_fuel_step parse_funccall_fuel_step parse_loc_fuel_step fuel_le_refl)
  have step_parse_block: "fuel_le (parse_block (Suc n) input) (parse_block (Suc (Suc n)) input)" for input
    unfolding parse_block.simps(2) [of n input] parse_block.simps(2) [of "Suc n" input]
    by (intro fuel_le_bind fuel_le_if fuel_le_prod fuel_le_some ih parse_expr_fuel_step parse_funccall_fuel_step parse_loc_fuel_step fuel_le_refl)
  have step_parse_block_loop: "fuel_le (parse_block_loop (Suc n) vars stmnts input) (parse_block_loop (Suc (Suc n)) vars stmnts input)" for vars stmnts input
    unfolding parse_block_loop.simps(2) [of n vars stmnts input] parse_block_loop.simps(2) [of "Suc n" vars stmnts input]
    by (intro fuel_le_bind fuel_le_if fuel_le_prod fuel_le_some ih parse_expr_fuel_step parse_funccall_fuel_step parse_loc_fuel_step fuel_le_refl)
  show ?case
    by (intro conjI allI step_parse_conditional step_parse_while step_parse_statement step_parse_block step_parse_block_loop)
qed

lemma parse_conditional_fuel_step: "fuel_le (parse_conditional n input) (parse_conditional (Suc n) input)"
  using stmt_fuel_step [of n] by simp

lemma parse_while_fuel_step: "fuel_le (parse_while n input) (parse_while (Suc n) input)"
  using stmt_fuel_step [of n] by simp

lemma parse_statement_fuel_step: "fuel_le (parse_statement n input) (parse_statement (Suc n) input)"
  using stmt_fuel_step [of n] by simp

lemma parse_block_fuel_step: "fuel_le (parse_block n input) (parse_block (Suc n) input)"
  using stmt_fuel_step [of n] by simp

lemma parse_block_loop_fuel_step: "fuel_le (parse_block_loop n vars stmnts input) (parse_block_loop (Suc n) vars stmnts input)"
  using stmt_fuel_step [of n] by simp


lemma fuel_le_add:
  assumes "\<And>n. fuel_le (f n) (f (Suc n))"
  shows "fuel_le (f n) (f (n + k))"
proof (induction k)
  case 0
  show ?case by (simp add: fuel_le_refl)
next
  case (Suc k)
  have "fuel_le (f (n + k)) (f (Suc (n + k)))"
    by (rule assms)
  with Suc show ?case
    by (auto intro: fuel_le_trans)
qed

lemma fuel_le_Inr: "fuel_le a b \<Longrightarrow> a = Inr r \<Longrightarrow> b = Inr r"
  by (auto simp: fuel_le_def)

lemma fuel_le_Inl: "fuel_le a b \<Longrightarrow> a = Inl e \<Longrightarrow> e \<noteq> Out_of_fuel \<Longrightarrow> b = Inl e"
  by (auto simp: fuel_le_def)

lemma fuel_more_Inr:
  assumes "\<And>n. fuel_le (f n) (f (Suc n))" and "f n = Inr r"
  shows "f (n + k) = Inr r"
  using fuel_le_add [of f n k, OF assms(1)] assms(2) by (rule fuel_le_Inr)

lemma fuel_more_Inl:
  assumes "\<And>n. fuel_le (f n) (f (Suc n))" and "f n = Inl e" and "e \<noteq> Out_of_fuel"
  shows "f (n + k) = Inl e"
  using fuel_le_add [of f n k, OF assms(1)] assms(2,3) by (rule fuel_le_Inl)


lemma parse_funcdecl_fuel_step: "fuel_le (parse_funcdecl n input) (parse_funcdecl (Suc n) input)"
  unfolding parse_funcdecl_def
  by (intro fuel_le_bind fuel_le_if fuel_le_prod parse_block_fuel_step fuel_le_refl)

lemma parse_program_loop_fuel_step:
  "fuel_le (parse_program_loop n vars funcs input) (parse_program_loop (Suc n) vars funcs input)"
proof (induction n arbitrary: vars funcs input)
  case 0
  show ?case by (simp add: fuel_le_def)
next
  case (Suc n)
  show ?case
    unfolding parse_program_loop.simps(2) [of n vars funcs input]
      parse_program_loop.simps(2) [of "Suc n" vars funcs input]
    by (intro fuel_le_bind fuel_le_if fuel_le_prod parse_funcdecl_fuel_step Suc.IH fuel_le_refl)
qed

lemma parse_program_fuel_step: "fuel_le (parse_program n input) (parse_program (Suc n) input)"
  unfolding parse_program_def by (rule parse_program_loop_fuel_step)

lemma parse_fuel_step: "fuel_le (parse n input) (parse (Suc n) input)"
  unfolding parse_def
  by (cases input) (simp_all add: fuel_le_refl parse_program_fuel_step)

section \<open>Declarations\<close>

lemmas cursor_defs =
  TokenQueue_is_empty_def TokenQueue_peek_def TokenQueue_remove_def token_str_eq_def
  get_next_token_line_def match_and_discard_next_token_def check_next_token_type_def
  check_next_token_def

lemma strtol_10: "strtol ''10'' 10 = 10"
  by (simp add: strtol_def isspace_def digit_of_def LONG_MAX_def)

text \<open>
  C5. \<open>parse_vardecl\<close> tells an array declaration from a scalar one: the tokens of
  \<open>int a[10];\<close> give a declaration of \<open>a\<close> of type int that is an array of length 10, and
  the tokens of \<open>int a;\<close> give one that is not an array and has length 1. The node carries
  the line of the type keyword; whatever follows the semicolon is left in the queue.
\<close>

theorem parse_vardecl_array_and_scalar:
  "parse_vardecl (Token KEY ''int'' l1 # Token ID ''a'' l2 # Token SYM ''['' l3 #
      Token DECLIT ''10'' l4 # Token SYM '']'' l5 # Token SYM '';'' l6 # rest)
     = Inr (VarDeclNode_new ''a'' INT' True 10 l1, rest) \<and>
   parse_vardecl (Token KEY ''int'' l1 # Token ID ''a'' l2 # Token SYM '';'' l3 # rest)
     = Inr (VarDeclNode_new ''a'' INT' False 1 l1, rest)"
  by (simp add: parse_vardecl_def parse_type_def parse_id_def cursor_defs MAX_ID_LEN_def
        strtol_10 int_of_long_def)

section \<open>Expressions: precedence\<close>

text \<open>
  C2. Multiplicative operators bind tighter than additive ones: the tokens of
  \<open>1 + 2 * 3\<close> parse to the sum of 1 and the product of 2 and 3, through \<open>parse_arith\<close>
  and through \<open>parse_expr\<close>, for every recursion budget from 12 (16) on, and the whole
  queue is consumed.
\<close>

theorem mult_binds_tighter_than_add:
  "parse_arith (12 + k)
     [Token DECLIT ''1'' 1, Token SYM ''+'' 1, Token DECLIT ''2'' 1, Token SYM ''*'' 1,
      Token DECLIT ''3'' 1]
     = Inr (BinaryOpNode_new ADDOP (LiteralNode_new_int 1 1)
              (BinaryOpNode_new MULOP (LiteralNode_new_int 2 1) (LiteralNode_new_int 3 1) 1) 1,
            []) \<and>
   parse_expr (16 + k)
     [Token DECLIT ''1'' 1, Token SYM ''+'' 1, Token DECLIT ''2'' 1, Token SYM ''*'' 1,
      Token DECLIT ''3'' 1]
     = Inr (BinaryOpNode_new ADDOP (LiteralNode_new_int 1 1)
              (BinaryOpNode_new MULOP (LiteralNode_new_int 2 1) (LiteralNode_new_int 3 1) 1) 1,
            [])"
proof
  have "parse_arith 12
     [Token DECLIT ''1'' 1, Token SYM ''+'' 1, Token DECLIT ''2'' 1, Token SYM ''*'' 1,
      Token DECLIT ''3'' 1]
     = Inr (BinaryOpNode_new ADDOP (LiteralNode_new_int 1 1)
              (BinaryOpNode_new MULOP (LiteralNode_new_int 2 1) (LiteralNode_new_int 3 1) 1) 1,
            [])"
    by code_simp
  then show "parse_arith (12 + k)
     [Token DECLIT ''1'' 1, Token SYM ''+'' 1, Token DECLIT ''2'' 1, Token SYM ''*'' 1,
      Token DECLIT ''3'' 1]
     = Inr (BinaryOpNode_new ADDOP (LiteralNode_new_int 1 1)
              (BinaryOpNode_new MULOP (LiteralNode_new_int 2 1) (LiteralNode_new_int 3 1) 1) 1,
            [])"
    by (rule fuel_more_Inr [of "\<lambda>n. parse_arith n _", OF parse_arith_fuel_step])
next
  have "parse_expr 16
     [Token DECLIT ''1'' 1, Token SYM ''+'' 1, Token DECLIT ''2'' 1, Token SYM ''*'' 1,
      Token DECLIT ''3'' 1]
     = Inr (BinaryOpNode_new ADDOP (LiteralNode_new_int 1 1)
              (BinaryOpNode_new MULOP (LiteralNode_new_int 2 1) (LiteralNode_new_int 3 1) 1) 1,
            [])"
    by code_simp
  then show "parse_expr (16 + k)
     [Token DECLIT ''1'' 1, Token SYM ''+'' 1, Token DECLIT ''2'' 1, Token SYM ''*'' 1,
      Token DECLIT ''3'' 1]
     = Inr (BinaryOpNode_new ADDOP (LiteralNode_new_int 1 1)
              (BinaryOpNode_new MULOP (LiteralNode_new_int 2 1) (LiteralNode_new_int 3 1) 1) 1,
            [])"
    by (rule fuel_more_Inr [of "\<lambda>n. parse_expr n _", OF parse_expr_fuel_step])
qed

section \<open>Expressions: left association\<close>

lemma level_operand_fuel_step:
  "fuel_le (level_operand lv n input) (level_operand lv (Suc n) input)"
  by (cases lv)
     (simp_all only: level_operand.simps parse_neg_fuel_step parse_mult_fuel_step
        parse_arith_fuel_step parse_relational_fuel_step parse_equality_fuel_step
        parse_and_fuel_step)

lemma level_operand_more:
  "level_operand lv n input = Inr r \<Longrightarrow> level_operand lv (n + k) input = Inr r"
  by (rule fuel_more_Inr [of "\<lambda>n. level_operand lv n input", OF level_operand_fuel_step])

lemma level_loop_stop:
  "\<not> next_is_op lv input \<Longrightarrow> level_loop lv (Suc n) line root input = Inr (root, input)"
  by (cases lv; cases input)
     (auto simp: next_is_op_def cursor_defs split: if_splits)

lemma level_loop_step:
  "tok_type t = SYM \<Longrightarrow> level_ops lv (tok_text t) = Some opr \<Longrightarrow>
   level_loop lv (Suc n) line root (t # input1) =
     (case level_operand lv n input1 of
        Inl e \<Rightarrow> Inl e
      | Inr (right, input2) \<Rightarrow>
          level_loop lv n line (BinaryOpNode_new opr root right line) input2)"
  by (cases lv) (auto simp: cursor_defs split: if_splits sum.splits)

lemma level_rule_unfold:
  "level_rule lv (Suc n) (t # input0) =
     (case level_operand lv n (t # input0) of
        Inl e \<Rightarrow> Inl e
      | Inr (root, input1) \<Rightarrow> level_loop lv n (tok_line t) root input1)"
  by (cases lv) (auto simp: cursor_defs split: sum.splits)

lemma left_fold_Cons:
  "left_fold line root ((opr, right) # steps)
     = left_fold line (BinaryOpNode_new opr root right line) steps"
  by (simp add: left_fold_def)

lemma op_chain_loop:
  "op_chain lv n input steps rest \<Longrightarrow>
   level_loop lv (n + length steps + 1 + k) line root input
     = Inr (left_fold line root steps, rest)"
proof (induction steps arbitrary: input root)
  case Nil
  then have "input = rest" and "\<not> next_is_op lv rest"
    by auto
  with level_loop_stop [of lv rest "n + k" line root] show ?case
    by (simp add: left_fold_def)
next
  case (Cons step steps)
  obtain opr right where step: "step = (opr, right)"
    by (cases step)
  from Cons.prems step obtain t input1 input2 where
    input: "input = t # input1" and t: "tok_type t = SYM" "level_ops lv (tok_text t) = Some opr"
    and operand: "level_operand lv n input1 = Inr (right, input2)"
    and chain: "op_chain lv n input2 steps rest"
    by (auto split: list.splits sum.splits)
  have fuel: "n + length (step # steps) + 1 + k = Suc (n + length steps + 1 + k)"
    by simp
  have "level_operand lv (n + length steps + 1 + k) input1 = Inr (right, input2)"
    using level_operand_more [OF operand, of "length steps + 1 + k"] by (simp add: add.assoc)
  then have "level_loop lv (n + length (step # steps) + 1 + k) line root input
      = level_loop lv (n + length steps + 1 + k) line (BinaryOpNode_new opr root right line) input2"
    unfolding fuel input by (simp add: level_loop_step [OF t])
  also have "\<dots> = Inr (left_fold line (BinaryOpNode_new opr root right line) steps, rest)"
    by (rule Cons.IH [OF chain])
  finally show ?case
    by (simp add: step left_fold_Cons)
qed

lemma op_chain_rule:
  assumes first: "level_operand lv n (t # input0) = Inr (first, input)"
    and chain: "op_chain lv n input steps rest"
  shows "level_rule lv (n + length steps + 2 + k) (t # input0)
      = Inr (left_fold (tok_line t) first steps, rest)"
proof -
  let ?m = "n + length steps + 1 + k"
  have fuel: "n + length steps + 2 + k = Suc ?m"
    by simp
  have operand: "level_operand lv ?m (t # input0) = Inr (first, input)"
    using level_operand_more [OF first, of "length steps + 1 + k"] by (simp add: add.assoc)
  have loop: "level_loop lv ?m (tok_line t) first input
      = Inr (left_fold (tok_line t) first steps, rest)"
    by (rule op_chain_loop [OF chain])
  show ?thesis
    unfolding fuel level_rule_unfold operand using loop by simp
qed

text \<open>
  C3. Every binary operator level folds to the left. Take any of the six levels, and a
  queue that continues an operand with a chain of operators of that level, each followed
  by an operand of the level: the loop of the level returns the left-leaning tree over the
  chain, in which the tree built so far is the left operand of the next operator, and
  leaves what follows the chain; so does the rule of the level, started at the first
  operand. With two operators (three operands) the first operator's node is the left
  child of the second's. The tokens of \<open>8 - 3 - 2\<close> parse to the difference of
  \<open>8 - 3\<close> and 2.
\<close>

theorem binary_levels_fold_left:
  "(op_chain lv n input steps rest \<longrightarrow>
      level_loop lv (n + length steps + 1 + k) line root input
        = Inr (left_fold line root steps, rest)) \<and>
   (level_operand lv n (t # input0) = Inr (first, input) \<and> op_chain lv n input steps rest \<longrightarrow>
      level_rule lv (n + length steps + 2 + k) (t # input0)
        = Inr (left_fold (tok_line t) first steps, rest)) \<and>
   left_fold line root [(op1, a), (op2, b)]
     = BinaryOpNode_new op2 (BinaryOpNode_new op1 root a line) b line \<and>
   parse_arith (12 + k)
     [Token DECLIT ''8'' 1, Token SYM ''-'' 1, Token DECLIT ''3'' 1, Token SYM ''-'' 1,
      Token DECLIT ''2'' 1]
     = Inr (BinaryOpNode_new SUBOP
              (BinaryOpNode_new SUBOP (LiteralNode_new_int 8 1) (LiteralNode_new_int 3 1) 1)
              (LiteralNode_new_int 2 1) 1,
            [])"
proof (intro conjI impI)
  assume "op_chain lv n input steps rest"
  then show "level_loop lv (n + length steps + 1 + k) line root input
      = Inr (left_fold line root steps, rest)"
    by (rule op_chain_loop)
next
  assume "level_operand lv n (t # input0) = Inr (first, input) \<and> op_chain lv n input steps rest"
  then show "level_rule lv (n + length steps + 2 + k) (t # input0)
      = Inr (left_fold (tok_line t) first steps, rest)"
    using op_chain_rule by blast
next
  show "left_fold line root [(op1, a), (op2, b)]
      = BinaryOpNode_new op2 (BinaryOpNode_new op1 root a line) b line"
    by (simp add: left_fold_def)
next
  have "parse_arith 12
     [Token DECLIT ''8'' 1, Token SYM ''-'' 1, Token DECLIT ''3'' 1, Token SYM ''-'' 1,
      Token DECLIT ''2'' 1]
     = Inr (BinaryOpNode_new SUBOP
              (BinaryOpNode_new SUBOP (LiteralNode_new_int 8 1) (LiteralNode_new_int 3 1) 1)
              (LiteralNode_new_int 2 1) 1,
            [])"
    by code_simp
  then show "parse_arith (12 + k)
     [Token DECLIT ''8'' 1, Token SYM ''-'' 1, Token DECLIT ''3'' 1, Token SYM ''-'' 1,
      Token DECLIT ''2'' 1]
     = Inr (BinaryOpNode_new SUBOP
              (BinaryOpNode_new SUBOP (LiteralNode_new_int 8 1) (LiteralNode_new_int 3 1) 1)
              (LiteralNode_new_int 2 1) 1,
            [])"
    by (rule fuel_more_Inr [of "\<lambda>n. parse_arith n _", OF parse_arith_fuel_step])
qed

theorem binary_levels_fold_left_witness:
  "op_chain Arith_level 5
     [Token SYM ''-'' 1, Token DECLIT ''3'' 1, Token SYM ''-'' 1, Token DECLIT ''2'' 1]
     [(SUBOP, LiteralNode_new_int 3 1), (SUBOP, LiteralNode_new_int 2 1)] [] \<and>
   parse_arith_loop 8 1 (LiteralNode_new_int 8 1)
     [Token SYM ''-'' 1, Token DECLIT ''3'' 1, Token SYM ''-'' 1, Token DECLIT ''2'' 1]
     = Inr (BinaryOpNode_new SUBOP
              (BinaryOpNode_new SUBOP (LiteralNode_new_int 8 1) (LiteralNode_new_int 3 1) 1)
              (LiteralNode_new_int 2 1) 1,
            []) \<and>
   level_operand Or_level 12 [Token KEY ''true'' 2, Token SYM ''||'' 2, Token ID ''b'' 3,
       Token SYM ''||'' 3, Token ID ''c'' 4, Token SYM '')'' 4]
     = Inr (LiteralNode_new_bool True 2, [Token SYM ''||'' 2, Token ID ''b'' 3,
          Token SYM ''||'' 3, Token ID ''c'' 4, Token SYM '')'' 4]) \<and>
   op_chain Or_level 12
     [Token SYM ''||'' 2, Token ID ''b'' 3, Token SYM ''||'' 3, Token ID ''c'' 4, Token SYM '')'' 4]
     [(OROP, LocationNode_new ''b'' None 3), (OROP, LocationNode_new ''c'' None 4)]
     [Token SYM '')'' 4] \<and>
   parse_or 16 [Token KEY ''true'' 2, Token SYM ''||'' 2, Token ID ''b'' 3,
       Token SYM ''||'' 3, Token ID ''c'' 4, Token SYM '')'' 4]
     = Inr (BinaryOpNode_new OROP
              (BinaryOpNode_new OROP (LiteralNode_new_bool True 2) (LocationNode_new ''b'' None 3) 2)
              (LocationNode_new ''c'' None 4) 2,
            [Token SYM '')'' 4])"
proof -
  have c1: "op_chain Arith_level 5
     [Token SYM ''-'' 1, Token DECLIT ''3'' 1, Token SYM ''-'' 1, Token DECLIT ''2'' 1]
     [(SUBOP, LiteralNode_new_int 3 1), (SUBOP, LiteralNode_new_int 2 1)] []"
    by code_simp
  have f2: "level_operand Or_level 12 [Token KEY ''true'' 2, Token SYM ''||'' 2, Token ID ''b'' 3,
       Token SYM ''||'' 3, Token ID ''c'' 4, Token SYM '')'' 4]
     = Inr (LiteralNode_new_bool True 2, [Token SYM ''||'' 2, Token ID ''b'' 3,
          Token SYM ''||'' 3, Token ID ''c'' 4, Token SYM '')'' 4])"
    by code_simp
  have c2: "op_chain Or_level 12
     [Token SYM ''||'' 2, Token ID ''b'' 3, Token SYM ''||'' 3, Token ID ''c'' 4, Token SYM '')'' 4]
     [(OROP, LocationNode_new ''b'' None 3), (OROP, LocationNode_new ''c'' None 4)]
     [Token SYM '')'' 4]"
    by code_simp
  have l1: "level_loop Arith_level (5 + length [(SUBOP, LiteralNode_new_int 3 1),
        (SUBOP, LiteralNode_new_int 2 1)] + 1 + 0) = parse_arith_loop 8"
    by simp
  have l2: "level_rule Or_level (12 + length [(OROP, LocationNode_new ''b'' None 3),
        (OROP, LocationNode_new ''c'' None 4)] + 2 + 0) = parse_or 16"
    by simp
  from binary_levels_fold_left [THEN conjunct1, rule_format, OF c1, of 0 1 "LiteralNode_new_int 8 1"]
  have r1: "parse_arith_loop 8 1 (LiteralNode_new_int 8 1)
     [Token SYM ''-'' 1, Token DECLIT ''3'' 1, Token SYM ''-'' 1, Token DECLIT ''2'' 1]
     = Inr (BinaryOpNode_new SUBOP
              (BinaryOpNode_new SUBOP (LiteralNode_new_int 8 1) (LiteralNode_new_int 3 1) 1)
              (LiteralNode_new_int 2 1) 1,
            [])"
    unfolding l1 by (simp add: left_fold_def)
  from binary_levels_fold_left [THEN conjunct2, THEN conjunct1, rule_format, OF conjI [OF f2 c2], of 0]
  have r2: "parse_or 16 [Token KEY ''true'' 2, Token SYM ''||'' 2, Token ID ''b'' 3,
       Token SYM ''||'' 3, Token ID ''c'' 4, Token SYM '')'' 4]
     = Inr (BinaryOpNode_new OROP
              (BinaryOpNode_new OROP (LiteralNode_new_bool True 2) (LocationNode_new ''b'' None 3) 2)
              (LocationNode_new ''c'' None 4) 2,
            [Token SYM '')'' 4])"
    unfolding l2 by (simp add: left_fold_def)
  from c1 r1 f2 c2 r2 show ?thesis
    by (intro conjI)
qed

section \<open>Errors of the token helpers\<close>

text \<open>
  C6, as the code has it. When the next token has the wrong type or text,
  \<open>match_and_discard_next_token\<close> reports the expected text, the text found and the line of
  the token after the mismatched one. When no token follows, the line lookup throws first:
  the error is the plain end-of-input message of \<open>get_next_token_line\<close>, which names
  neither text nor a line.
\<close>

theorem match_and_discard_mismatch:
  "tok_type t \<noteq> ty \<or> tok_text t \<noteq> txt \<Longrightarrow>
   match_and_discard_next_token (t # rest) ty txt =
     (case rest of
        [] \<Rightarrow> Inl (Error_throw ''Unexpected end of input'')
      | t' # _ \<Rightarrow> Inl (Expected_but_found txt (tok_text t) (tok_line t')))"
  by (auto simp: cursor_defs split: list.splits)

theorem match_and_discard_mismatch_witness:
  "match_and_discard_next_token [Token SYM '')'' 3, Token SYM ''{'' 4] SYM '';''
     = Inl (Expected_but_found '';'' '')'' 4) \<and>
   match_and_discard_next_token [Token SYM '')'' 3] SYM '';''
     = Inl (Error_throw ''Unexpected end of input'')"
  using match_and_discard_mismatch [of "Token SYM '')'' 3" SYM "'';''" "[Token SYM ''{'' 4]"]
    match_and_discard_mismatch [of "Token SYM '')'' 3" SYM "'';''" "[]"]
  by simp

text \<open>
  The claim as the spec states it fails on a queue whose only token mismatches: the
  error is not a mismatch message carrying the line of the failing token.
\<close>

theorem match_and_discard_last_token_counterexample:
  "match_and_discard_next_token [Token SYM '')'' 3] SYM '';''
     \<noteq> Inl (Expected_but_found '';'' '')'' 3) \<and>
   match_and_discard_next_token [Token SYM '')'' 3] SYM '';''
     = Inl (Error_throw ''Unexpected end of input'')"
  by (simp add: cursor_defs)

section \<open>The two-token lookahead\<close>

text \<open>
  C10. The identifier dispatch of \<open>parse_base_expr\<close> and \<open>parse_statement\<close> reads the text
  of the second node of the queue without checking that there is one. On a queue that
  holds a single identifier both functions read through the null \<open>next\<close> pointer, and no
  error branch is reached; a program that ends in an identifier at statement position
  gets there from \<open>parse\<close>. When the queue holds at least two tokens the read is the text
  of the second token, and the dispatch is decided by whether that text is \<open>(\<close>.
\<close>

theorem identifier_lookahead_second_token:
  "(tok_type t = ID \<longrightarrow>
      parse_base_expr (Suc n) [t] = Inl Null_dereference \<and>
      parse_statement (Suc n) [t] = Inl Null_dereference) \<and>
   parse (20 + k) (Some [Token KEY ''def'' 1, Token KEY ''int'' 1, Token ID ''f'' 1,
      Token SYM ''('' 1, Token SYM '')'' 1, Token SYM ''{'' 1, Token ID ''x'' 2])
     = Inl Null_dereference \<and>
   (2 \<le> length input \<longrightarrow> head_next_text input = Inr (tok_text (input ! 1))) \<and>
   (tok_type t = ID \<longrightarrow>
      check_id_then_paren (t # t2 # rest) = Inr (tok_text t2 = ''(''))"
proof (intro conjI impI)
  assume "tok_type t = ID"
  then show "parse_base_expr (Suc n) [t] = Inl Null_dereference"
    by (simp add: cursor_defs check_id_then_paren_def head_next_text_def)
next
  assume "tok_type t = ID"
  then show "parse_statement (Suc n) [t] = Inl Null_dereference"
    by (simp add: cursor_defs check_id_then_paren_def head_next_text_def)
next
  have "parse 20 (Some [Token KEY ''def'' 1, Token KEY ''int'' 1, Token ID ''f'' 1,
      Token SYM ''('' 1, Token SYM '')'' 1, Token SYM ''{'' 1, Token ID ''x'' 2])
     = Inl Null_dereference"
    by code_simp
  then show "parse (20 + k) (Some [Token KEY ''def'' 1, Token KEY ''int'' 1, Token ID ''f'' 1,
      Token SYM ''('' 1, Token SYM '')'' 1, Token SYM ''{'' 1, Token ID ''x'' 2])
     = Inl Null_dereference"
    by (rule fuel_more_Inl [of "\<lambda>n. parse n _", OF parse_fuel_step]) simp
next
  assume "2 \<le> length input"
  then show "head_next_text input = Inr (tok_text (input ! 1))"
    by (cases input; cases "tl input") (auto simp: head_next_text_def)
next
  assume "tok_type t = ID"
  then show "check_id_then_paren (t # t2 # rest) = Inr (tok_text t2 = ''('')"
    by (simp add: check_id_then_paren_def head_next_text_def cursor_defs)
qed

theorem identifier_lookahead_second_token_witness:
  "parse_base_expr 1 [Token ID ''x'' 1] = Inl Null_dereference \<and>
   parse_statement 1 [Token ID ''x'' 1] = Inl Null_dereference \<and>
   head_next_text [Token ID ''x'' 1, Token SYM ''('' 1] = Inr ''('' \<and>
   check_id_then_paren [Token ID ''x'' 1, Token SYM ''('' 1] = Inr True"
  using identifier_lookahead_second_token
    [of "Token ID ''x'' 1" 0 0 "[Token ID ''x'' 1, Token SYM ''('' 1]" "Token SYM ''('' 1" "[]"]
  by simp

section \<open>Conditionals\<close>

text \<open>
  C1, evaluated on the code. \<open>parse_conditional\<close> consumes \<open>if\<close>, expects \<open>(\<close>, parses the
  condition, expects \<open>)\<close> and parses a block as the then-branch: the tokens of \<open>if (x) { }\<close>
  give the conditional with condition \<open>x\<close>, an empty block and no else-branch. After
  \<open>else\<close> it calls \<open>parse_expr\<close>, not \<open>parse_block\<close>: the tokens of
  \<open>if (x) { } else { }\<close> are rejected at the second \<open>{\<close> as an invalid base expression,
  and what is accepted after \<open>else\<close> is an expression, as in \<open>if (x) { } else y\<close>.
\<close>

theorem parse_conditional_else_branch:
  "parse_statement (20 + k)
     [Token KEY ''if'' 1, Token SYM ''('' 1, Token ID ''x'' 1, Token SYM '')'' 1,
      Token SYM ''{'' 1, Token SYM ''}'' 1, Token KEY ''else'' 1, Token SYM ''{'' 1,
      Token SYM ''}'' 1]
     = Inl (Invalid_base_expression ''{'' 1) \<and>
   parse_statement (20 + k)
     [Token KEY ''if'' 1, Token SYM ''('' 1, Token ID ''x'' 1, Token SYM '')'' 1,
      Token SYM ''{'' 1, Token SYM ''}'' 1]
     = Inr (ConditionalNode_new (LocationNode_new ''x'' None 1) (BlockNode_new [] [] 1) None 1,
            []) \<and>
   parse_statement (20 + k)
     [Token KEY ''if'' 1, Token SYM ''('' 1, Token ID ''x'' 1, Token SYM '')'' 1,
      Token SYM ''{'' 1, Token SYM ''}'' 1, Token KEY ''else'' 1, Token ID ''y'' 1,
      Token SYM '';'' 1]
     = Inr (ConditionalNode_new (LocationNode_new ''x'' None 1) (BlockNode_new [] [] 1)
              (Some (LocationNode_new ''y'' None 1)) 1,
            [Token SYM '';'' 1])"
proof (intro conjI)
  have "parse_statement 20
     [Token KEY ''if'' 1, Token SYM ''('' 1, Token ID ''x'' 1, Token SYM '')'' 1,
      Token SYM ''{'' 1, Token SYM ''}'' 1, Token KEY ''else'' 1, Token SYM ''{'' 1,
      Token SYM ''}'' 1]
     = Inl (Invalid_base_expression ''{'' 1)"
    by code_simp
  then show "parse_statement (20 + k)
     [Token KEY ''if'' 1, Token SYM ''('' 1, Token ID ''x'' 1, Token SYM '')'' 1,
      Token SYM ''{'' 1, Token SYM ''}'' 1, Token KEY ''else'' 1, Token SYM ''{'' 1,
      Token SYM ''}'' 1]
     = Inl (Invalid_base_expression ''{'' 1)"
    by (rule fuel_more_Inl [of "\<lambda>n. parse_statement n _", OF parse_statement_fuel_step]) simp
next
  have "parse_statement 20
     [Token KEY ''if'' 1, Token SYM ''('' 1, Token ID ''x'' 1, Token SYM '')'' 1,
      Token SYM ''{'' 1, Token SYM ''}'' 1]
     = Inr (ConditionalNode_new (LocationNode_new ''x'' None 1) (BlockNode_new [] [] 1) None 1,
            [])"
    by code_simp
  then show "parse_statement (20 + k)
     [Token KEY ''if'' 1, Token SYM ''('' 1, Token ID ''x'' 1, Token SYM '')'' 1,
      Token SYM ''{'' 1, Token SYM ''}'' 1]
     = Inr (ConditionalNode_new (LocationNode_new ''x'' None 1) (BlockNode_new [] [] 1) None 1,
            [])"
    by (rule fuel_more_Inr [of "\<lambda>n. parse_statement n _", OF parse_statement_fuel_step])
next
  have "parse_statement 20
     [Token KEY ''if'' 1, Token SYM ''('' 1, Token ID ''x'' 1, Token SYM '')'' 1,
      Token SYM ''{'' 1, Token SYM ''}'' 1, Token KEY ''else'' 1, Token ID ''y'' 1,
      Token SYM '';'' 1]
     = Inr (ConditionalNode_new (LocationNode_new ''x'' None 1) (BlockNode_new [] [] 1)
              (Some (LocationNode_new ''y'' None 1)) 1,
            [Token SYM '';'' 1])"
    by code_simp
  then show "parse_statement (20 + k)
     [Token KEY ''if'' 1, Token SYM ''('' 1, Token ID ''x'' 1, Token SYM '')'' 1,
      Token SYM ''{'' 1, Token SYM ''}'' 1, Token KEY ''else'' 1, Token ID ''y'' 1,
      Token SYM '';'' 1]
     = Inr (ConditionalNode_new (LocationNode_new ''x'' None 1) (BlockNode_new [] [] 1)
              (Some (LocationNode_new ''y'' None 1)) 1,
            [Token SYM '';'' 1])"
    by (rule fuel_more_Inr [of "\<lambda>n. parse_statement n _", OF parse_statement_fuel_step])
qed

section \<open>The program\<close>

lemma parse_program_loop_rest:
  "parse_program_loop n vars funcs input = Inr (prog, rest) \<Longrightarrow> rest = []"
proof (induction n arbitrary: vars funcs input)
  case 0
  then show ?case by simp
next
  case (Suc n)
  show ?case
  proof (cases "TokenQueue_is_empty input")
    case True
    with Suc.prems show ?thesis
      by (simp add: TokenQueue_is_empty_def)
  next
    case False
    with Suc.prems Suc.IH show ?thesis
      by (auto split: if_splits sum.splits)
  qed
qed

text \<open>
  C7. Whenever the top-level parse returns a program, the queue it leaves is empty:
  \<open>parse_program\<close>, and \<open>parse\<close> with it, succeed only after consuming every token.
\<close>

theorem parse_success_consumes_all:
  "(parse_program n input = Inr (prog, rest) \<longrightarrow> rest = []) \<and>
   (parse n q = Inr (prog, rest) \<longrightarrow> rest = [])"
  by (auto simp: parse_def parse_program_def split: option.splits
           dest: parse_program_loop_rest)

theorem parse_success_consumes_all_witness:
  "parse 20 (Some [Token KEY ''int'' 1, Token ID ''a'' 1, Token SYM '';'' 1,
      Token KEY ''def'' 2, Token KEY ''int'' 2, Token ID ''main'' 2, Token SYM ''('' 2,
      Token SYM '')'' 2, Token SYM ''{'' 2, Token KEY ''return'' 3, Token DECLIT ''0'' 3,
      Token SYM '';'' 3, Token SYM ''}'' 4])
     = Inr (ProgramNode_new [VarDeclNode_new ''a'' INT' False 1 1]
              [FuncDeclNode_new ''main'' INT' []
                 (BlockNode_new [] [ReturnNode_new (Some (LiteralNode_new_int 0 3)) 3] 2) 2],
            []) \<and>
   ([] :: TokenQueue) = []"
proof -
  have h: "parse 20 (Some [Token KEY ''int'' 1, Token ID ''a'' 1, Token SYM '';'' 1,
      Token KEY ''def'' 2, Token KEY ''int'' 2, Token ID ''main'' 2, Token SYM ''('' 2,
      Token SYM '')'' 2, Token SYM ''{'' 2, Token KEY ''return'' 3, Token DECLIT ''0'' 3,
      Token SYM '';'' 3, Token SYM ''}'' 4])
     = Inr (ProgramNode_new [VarDeclNode_new ''a'' INT' False 1 1]
              [FuncDeclNode_new ''main'' INT' []
                 (BlockNode_new [] [ReturnNode_new (Some (LiteralNode_new_int 0 3)) 3] 2) 2],
            [])"
    by code_simp
  from h parse_success_consumes_all [THEN conjunct2, rule_format, OF h] show ?thesis
    by simp
qed

section \<open>Integer literals\<close>

lemma digit_of_not_space: "digit_of c = Some d \<Longrightarrow> \<not> isspace c"
  by (auto simp: digit_of_def isspace_def Let_def split: if_splits)

lemma digit_of_not_sign: "digit_of c = Some d \<Longrightarrow> c \<noteq> CHR ''-'' \<and> c \<noteq> CHR ''+''"
  by (auto simp: digit_of_def Let_def split: if_splits)

lemma strtol_digits_value:
  "list_all (\<lambda>c. case digit_of c of None \<Rightarrow> False | Some d \<Rightarrow> d < base) s \<Longrightarrow>
   strtol_digits base acc s = acc * int base ^ length s + digits_value base s"
proof (induction s arbitrary: acc)
  case Nil
  show ?case by simp
next
  case (Cons c cs)
  from Cons.prems obtain d where d: "digit_of c = Some d" "d < base"
    by (auto split: option.splits)
  from Cons.prems have "list_all (\<lambda>c. case digit_of c of None \<Rightarrow> False | Some d \<Rightarrow> d < base) cs"
    by simp
  from Cons.IH [OF this, of "acc * int base + int d"] d show ?case
    by (simp add: algebra_simps)
qed

lemma strtol_decimal:
  assumes "is_digits 10 ds"
  shows "strtol ds 10 = min LONG_MAX (digits_value 10 ds)"
proof -
  from assms obtain c cs where ds: "ds = c # cs"
    by (cases ds) (auto simp: is_digits_def)
  from assms ds obtain d where d: "digit_of c = Some d"
    by (auto simp: is_digits_def split: option.splits)
  have sp: "dropWhile isspace ds = ds"
    using digit_of_not_space [OF d] ds by simp
  have sg: "c \<noteq> CHR ''-''" "c \<noteq> CHR ''+''"
    using digit_of_not_sign [OF d] by simp_all
  have "strtol_digits 10 0 ds = digits_value 10 ds"
    using strtol_digits_value [of 10 ds 0] assms by (simp add: is_digits_def)
  with sp sg ds show ?thesis
    by (simp add: strtol_def)
qed

lemma strtol_hex:
  assumes "is_digits 16 hs"
  shows "strtol (CHR ''0'' # CHR ''x'' # hs) 16 = min LONG_MAX (digits_value 16 hs)"
proof -
  have "strtol_digits 16 0 hs = digits_value 16 hs"
    using strtol_digits_value [of 16 hs 0] assms by (simp add: is_digits_def)
  then show ?thesis
    by (simp add: strtol_def isspace_def)
qed

text \<open>
  C9, as the code has it. \<open>parse_lit\<close> reads the text of a decimal literal in base 10 and
  the text of a hex literal (after its \<open>0x\<close>) in base 16 and never raises an error for a
  large value. The value goes through \<open>strtol\<close>, which returns a \<open>long\<close>: a value up to
  \<open>LONG_MAX\<close> is then cut to its low 32 bits by the cast, a larger one has been replaced by
  \<open>LONG_MAX\<close> before the cast.
\<close>

theorem parse_lit_integer_value:
  "(is_digits 10 ds \<longrightarrow>
      parse_lit (Token DECLIT ds line # rest)
        = Inr (LiteralNode_new_int (word_of_int (min LONG_MAX (digits_value 10 ds))) line,
               rest)) \<and>
   (is_digits 16 hs \<longrightarrow>
      parse_lit (Token HEXLIT (''0x'' @ hs) line # rest)
        = Inr (LiteralNode_new_int (word_of_int (min LONG_MAX (digits_value 16 hs))) line,
               rest))"
  by (simp add: parse_lit_def cursor_defs int_of_long_def strtol_decimal strtol_hex)

theorem parse_lit_integer_value_witness:
  "is_digits 10 ''4294967297'' \<and> is_digits 16 ''fffffffe'' \<and>
   parse_lit [Token DECLIT ''4294967297'' 1] = Inr (LiteralNode_new_int 1 1, []) \<and>
   parse_lit [Token HEXLIT ''0xfffffffe'' 1] = Inr (LiteralNode_new_int (- 2) 1, [])"
proof -
  have d: "is_digits 10 ''4294967297''"
    by (simp add: is_digits_def digit_of_def)
  have h: "is_digits 16 ''fffffffe''"
    by (simp add: is_digits_def digit_of_def)
  have v: "min LONG_MAX (digits_value 10 ''4294967297'') = 4294967297"
    "min LONG_MAX (digits_value 16 ''fffffffe'') = 4294967294"
    by (simp_all add: LONG_MAX_def digit_of_def)
  from d h v
    parse_lit_integer_value [of "''4294967297''" 1 "[]" "''fffffffe''", THEN conjunct1]
    parse_lit_integer_value [of "''4294967297''" 1 "[]" "''fffffffe''", THEN conjunct2]
  show ?thesis
    by simp
qed

text \<open>
  The claim as the spec states it, that an overflowing value wraps to 32 bits, fails
  for a literal beyond \<open>LONG_MAX\<close>: the digits of \<open>2 ^ 63\<close> wrap to 0, and the literal
  parsed is \<open>- 1\<close>.
\<close>

theorem parse_lit_overflow_counterexample:
  "parse_lit [Token DECLIT ''9223372036854775808'' 1]
     \<noteq> Inr (LiteralNode_new_int (word_of_int (digits_value 10 ''9223372036854775808'')) 1, []) \<and>
   parse_lit [Token DECLIT ''9223372036854775808'' 1] = Inr (LiteralNode_new_int (- 1) 1, []) \<and>
   (word_of_int (digits_value 10 ''9223372036854775808'') :: 32 word) = 0"
proof -
  have v: "digits_value 10 ''9223372036854775808'' = 9223372036854775808"
    by (simp add: digit_of_def)
  have s: "strtol ''9223372036854775808'' 10 = LONG_MAX"
    by (simp add: strtol_decimal is_digits_def digit_of_def v LONG_MAX_def)
  have w: "(word_of_int LONG_MAX :: 32 word) = - 1"
    by (simp add: LONG_MAX_def)
  have p: "parse_lit [Token DECLIT ''9223372036854775808'' 1]
      = Inr (LiteralNode_new_int (- 1) 1, [])"
    by (simp add: parse_lit_def cursor_defs int_of_long_def s w)
  have z: "(word_of_int (digits_value 10 ''9223372036854775808'') :: 32 word) = 0"
    unfolding v by simp
  show ?thesis
    unfolding p z by simp
qed

section \<open>String literals\<close>

lemma c_str_at:
  "NUL \<notin> set s \<Longrightarrow> c_str (pre @ s @ NUL # post) (length pre) = s"
  by (auto simp: c_str_def takeWhile_tail)

lemma c_str_at1:
  "NUL \<notin> set s \<Longrightarrow> c_str (c # s @ NUL # post) (Suc 0) = s"
  using c_str_at [of s "[c]" post] by simp

lemma find_first_Some:
  "find_first needle s = Some i \<Longrightarrow> s = take i s @ needle @ drop (i + length needle) s"
proof (induction s arbitrary: i)
  case Nil
  then show ?case by (simp split: if_splits)
next
  case (Cons c cs)
  show ?case
  proof (cases "prefix needle (c # cs)")
    case True
    with Cons.prems have "i = 0" by simp
    with True show ?thesis
      by (auto simp: prefix_def)
  next
    case False
    with Cons.prems obtain j where j: "find_first needle cs = Some j" "i = Suc j"
      by auto
    from Cons.IH [OF j(1)] j(2) show ?thesis
      by simp
  qed
qed

lemma find_first_le:
  "find_first needle s = Some i \<Longrightarrow> i + length needle \<le> length s"
proof (induction s arbitrary: i)
  case Nil
  then show ?case by (simp split: if_splits)
next
  case (Cons c cs)
  then show ?case
    by (auto dest: prefix_length_le split: if_splits)
qed

lemma replace_first_find_first:
  "needle \<noteq> [] \<Longrightarrow>
   replace_first needle repl s =
     map_option (\<lambda>i. take i s @ repl @ drop (i + length needle) s) (find_first needle s)"
  by (induction s) (auto simp: option.map_comp comp_def)

lemma overlap_in_buffer:
  assumes pre: "NUL \<notin> set pre" and post: "NUL \<notin> set post" and esc: "esc \<noteq> NUL"
    and body: "body = pre @ b1 # b2 # post"
  shows "(let buf = (c1 # body @ [NUL, NUL])[Suc (length pre) := NUL];
              p2 = Suc (length pre) + 2;
              buf = strncat_literal buf (Suc 0) [esc] 3
          in case strncat_within buf (Suc 0) p2 (strlen buf p2 + 1) of
               Inl e \<Rightarrow> Inl e
             | Inr buf \<Rightarrow> Inr (c_str buf (Suc 0)))
         = (if post \<noteq> [] then Inl Overlapping_copy else Inr (pre @ [esc]))"
proof -
  let ?buf2 = "c1 # pre @ NUL # b2 # post @ [NUL, NUL]"
  let ?buf3 = "c1 # pre @ esc # NUL # post @ [NUL, NUL]"
  let ?p2 = "Suc (length pre) + 2"
  have b2: "(c1 # body @ [NUL, NUL])[Suc (length pre) := NUL] = ?buf2"
    unfolding body by simp
  have l2: "strlen ?buf2 (Suc 0) = length pre"
    using c_str_at1 [OF pre, of c1 "b2 # post @ [NUL, NUL]"] by (simp add: strlen_def)
  have "append_chars ?buf2 (Suc (length pre)) [esc] = ?buf3"
    using list_update_length [of pre NUL "b2 # post @ [NUL, NUL]" esc]
      list_update_length [of "pre @ [esc]" b2 "post @ [NUL, NUL]" NUL]
    by simp
  then have b3: "strncat_literal ?buf2 (Suc 0) [esc] 3 = ?buf3"
    by (simp add: strncat_literal_def l2)
  have c3: "c_str ?buf3 ?p2 = post"
    using c_str_at [OF post, of "c1 # pre @ [esc, NUL]" "[NUL]"] by simp
  then have l3: "strlen ?buf3 ?p2 = length post"
    by (simp add: strlen_def)
  have "c_str ?buf3 (Suc 0) = pre @ [esc]"
    using c_str_at1 [of "pre @ [esc]" c1 "post @ [NUL, NUL]"] pre esc by simp
  then have l3': "strlen ?buf3 (Suc 0) = Suc (length pre)"
    by (simp add: strlen_def)
  have w: "strncat_within ?buf3 (Suc 0) ?p2 (length post + 1)
      = (if post \<noteq> [] then Inl Overlapping_copy
         else Inr (c1 # pre @ esc # NUL # [NUL, NUL]))"
  proof (cases "post = []")
    case True
    have "take (Suc (Suc (length pre))) (c1 # pre @ [esc, NUL, NUL, NUL]) = c1 # pre @ [esc]"
      by simp
    moreover have "drop (Suc (Suc (Suc (length pre)))) (c1 # pre @ [esc, NUL, NUL, NUL])
        = [NUL, NUL]"
      by simp
    ultimately show ?thesis
      using True l3 l3' c3 by (simp add: strncat_within_def Let_def)
  next
    case False
    then have "Suc 0 \<le> length post"
      by (cases post) simp_all
    then show ?thesis
      using False l3 l3' c3 by (simp add: strncat_within_def Let_def del: One_nat_def)
  qed
  have "c_str (c1 # pre @ esc # NUL # [NUL, NUL]) (Suc 0) = pre @ [esc]"
    using c_str_at1 [of "pre @ [esc]" c1 "[NUL, NUL]"] pre esc by simp
  then show ?thesis
    by (simp only: Let_def b2 b3 l3 w) simp
qed

lemma escape_in_buffer:
  assumes body: "NUL \<notin> set body" and esc: "esc \<noteq> NUL"
    and f: "find_first [backslash, x] body = Some i"
  shows "(let buf = (c1 # body @ [NUL, NUL])[Suc i := NUL];
              p2 = Suc i + 2;
              buf = strncat_literal buf (Suc 0) [esc] 3
          in case strncat_within buf (Suc 0) p2 (strlen buf p2 + 1) of
               Inl e \<Rightarrow> Inl e
             | Inr buf \<Rightarrow> Inr (c_str buf (Suc 0)))
         = (if i + 2 < length body then Inl Overlapping_copy
            else Inr (take i body @ esc # drop (i + 2) body))"
proof -
  from find_first_Some [OF f]
  have eq: "body = take i body @ backslash # x # drop (i + 2) body"
    by simp
  from find_first_le [OF f] have le: "i + 2 \<le> length body"
    by simp
  then have len: "length (take i body) = i"
    by simp
  have pre: "NUL \<notin> set (take i body)" and post: "NUL \<notin> set (drop (i + 2) body)"
    using body by (auto dest: in_set_takeD in_set_dropD)
  have tail: "(drop (i + 2) body \<noteq> []) = (i + 2 < length body)"
    by auto
  have none: "\<not> i + 2 < length body \<Longrightarrow> drop (i + 2) body = []"
    by simp
  from overlap_in_buffer [OF pre post esc eq, of c1]
  show ?thesis
    unfolding len tail by (auto simp: none)
qed

lemma string_literal_text_cases:
  assumes body: "NUL \<notin> set body" and c2: "c2 \<noteq> NUL"
  shows "string_literal_text (c1 # body @ [c2])
      = (if escape_before_end body then Inl Overlapping_copy else Inr (unescape_once body))"
proof -
  let ?buf1 = "c1 # body @ [NUL, NUL]"
  have "c_str (c1 # body @ [c2, NUL]) (Suc 0) = body @ [c2]"
    using c_str_at1 [of "body @ [c2]" c1 "[]"] body c2 by simp
  then have l0: "strlen (c1 # body @ [c2, NUL]) (Suc 0) = Suc (length body)"
    by (simp add: strlen_def)
  have b1: "(c1 # body @ [c2, NUL])[Suc (length body) := NUL] = ?buf1"
    using list_update_length [of body c2 "[NUL]" NUL] by simp
  have s1: "c_str ?buf1 (Suc 0) = body"
    using c_str_at1 [OF body, of c1 "[NUL]"] by simp
  have st: "strstr ?buf1 (Suc 0) needle = map_option Suc (find_first needle body)" for needle
    by (simp add: strstr_def s1)
  have rf: "replace_first [backslash, x] [esc] body =
      map_option (\<lambda>i. take i body @ esc # drop (i + 2) body) (find_first [backslash, x] body)"
    for x esc
    using replace_first_find_first [of "[backslash, x]" "[esc]" body] by simp
  have step: "find_first [backslash, x] body = Some i \<Longrightarrow> esc \<noteq> NUL \<Longrightarrow>
      (case strncat_within (strncat_literal (?buf1[Suc i := NUL]) (Suc 0) [esc] 3) (Suc 0)
               (Suc (Suc (Suc i)))
               (Suc (strlen (strncat_literal (?buf1[Suc i := NUL]) (Suc 0) [esc] 3)
                      (Suc (Suc (Suc i))))) of
         Inl e \<Rightarrow> Inl e
       | Inr buf \<Rightarrow> Inr (c_str buf (Suc 0)))
        = (if Suc (Suc i) < length body then Inl Overlapping_copy
           else Inr (take i body @ esc # drop (Suc (Suc i)) body))"
    for x i esc
    using escape_in_buffer [OF body, of esc x i c1]
    by (simp add: Let_def del: list_update.simps)
  have "string_literal_text (c1 # body @ [c2]) =
      (case find_escape ?buf1 (Suc 0) of
         None \<Rightarrow> Inr (c_str ?buf1 (Suc 0))
       | Some (p2, escp) \<Rightarrow>
           let buf = ?buf1[p2 := NUL];
               p2 = p2 + 2;
               buf = strncat_literal buf (Suc 0) escp 3
           in (case strncat_within buf (Suc 0) p2 (strlen buf p2 + 1) of
                 Inl e \<Rightarrow> Inl e
               | Inr buf \<Rightarrow> Inr (c_str buf (Suc 0))))"
    by (simp add: string_literal_text_def l0 b1 s1 Let_def cong: option.case_cong
          del: list_update.simps)
  also have "\<dots> = (if escape_before_end body then Inl Overlapping_copy
      else Inr (unescape_once body))"
    unfolding find_escape_def st unescape_once_def rf escape_before_end_def first_escape_def
    by (auto split: option.splits simp: step s1 Let_def simp del: list_update.simps)
  finally show ?thesis .
qed

text \<open>
  C4, evaluated on the code. For a string literal token, \<open>parse_lit\<close> drops the first and
  the last character of the text and looks for the four escape forms in the order \<open>\n\<close>,
  \<open>\t\<close>, \<open>\\\<close>, \<open>\"\<close>. When none occurs the literal is the body; when the first
  occurrence of the first form found ends the body, it is replaced by the character it
  stands for: in both cases the literal is the one the spec describes. When characters
  follow that escape, the code appends them with \<open>strncat\<close> to a destination that ends
  one byte below them in the same array, a copy between overlapping objects, which C
  leaves undefined: the model gives \<open>Overlapping_copy\<close> and no string. This is so for the
  text \<open>"a\nbcde"\<close>, where the spec's reading is the six characters a, newline, b, c, d, e.
\<close>

theorem parse_lit_string_escape_overlap:
  "(NUL \<notin> set body \<and> c2 \<noteq> NUL \<longrightarrow>
      parse_lit (Token STRLIT (c1 # body @ [c2]) line # rest)
        = (if escape_before_end body then Inl Overlapping_copy
           else Inr (LiteralNode_new_string (unescape_once body) line, rest))) \<and>
   parse_lit (Token STRLIT
       [dquote, CHR ''a'', backslash, CHR ''n'', CHR ''b'', CHR ''c'', CHR ''d'', CHR ''e'',
        dquote] line # rest)
     = Inl Overlapping_copy \<and>
   unescape_once [CHR ''a'', backslash, CHR ''n'', CHR ''b'', CHR ''c'', CHR ''d'', CHR ''e'']
     = [CHR ''a'', newline, CHR ''b'', CHR ''c'', CHR ''d'', CHR ''e'']"
proof (intro conjI impI)
  assume "NUL \<notin> set body \<and> c2 \<noteq> NUL"
  then show "parse_lit (Token STRLIT (c1 # body @ [c2]) line # rest)
        = (if escape_before_end body then Inl Overlapping_copy
           else Inr (LiteralNode_new_string (unescape_once body) line, rest))"
    by (simp add: parse_lit_def cursor_defs string_literal_text_cases)
next
  have "string_literal_text
      (dquote # [CHR ''a'', backslash, CHR ''n'', CHR ''b'', CHR ''c'', CHR ''d'', CHR ''e'']
         @ [dquote])
      = (if escape_before_end
            [CHR ''a'', backslash, CHR ''n'', CHR ''b'', CHR ''c'', CHR ''d'', CHR ''e'']
         then Inl Overlapping_copy
         else Inr (unescape_once
            [CHR ''a'', backslash, CHR ''n'', CHR ''b'', CHR ''c'', CHR ''d'', CHR ''e'']))"
    by (rule string_literal_text_cases) simp_all
  then show "parse_lit (Token STRLIT
       [dquote, CHR ''a'', backslash, CHR ''n'', CHR ''b'', CHR ''c'', CHR ''d'', CHR ''e'',
        dquote] line # rest)
     = Inl Overlapping_copy"
    by (simp add: parse_lit_def cursor_defs escape_before_end_def first_escape_def)
next
  show "unescape_once
      [CHR ''a'', backslash, CHR ''n'', CHR ''b'', CHR ''c'', CHR ''d'', CHR ''e'']
     = [CHR ''a'', newline, CHR ''b'', CHR ''c'', CHR ''d'', CHR ''e'']"
    by (simp add: unescape_once_def)
qed

theorem parse_lit_string_escape_overlap_witness:
  "NUL \<notin> set [CHR ''a'', backslash, CHR ''t'', CHR ''b'', backslash, CHR ''n''] \<and>
   dquote \<noteq> NUL \<and>
   parse_lit [Token STRLIT
       [dquote, CHR ''a'', backslash, CHR ''t'', CHR ''b'', backslash, CHR ''n'', dquote] 1]
     = Inr (LiteralNode_new_string [CHR ''a'', backslash, CHR ''t'', CHR ''b'', newline] 1, []) \<and>
   parse_lit [Token STRLIT [dquote, CHR ''a'', CHR ''b'', dquote] 1]
     = Inr (LiteralNode_new_string ''ab'' 1, [])"
  using parse_lit_string_escape_overlap
      [of "[CHR ''a'', backslash, CHR ''t'', CHR ''b'', backslash, CHR ''n'']"
          dquote dquote 1 "[]", THEN conjunct1]
    parse_lit_string_escape_overlap [of "''ab''" dquote dquote 1 "[]", THEN conjunct1]
  by (simp add: unescape_once_def escape_before_end_def first_escape_def)

section \<open>Every rule consumes tokens\<close>

lemma match_and_discard_next_token_length:
  "match_and_discard_next_token input ty txt = Inr input1 \<Longrightarrow> length input1 < length input"
  by (auto simp: cursor_defs split: if_splits list.splits sum.splits)

lemma TokenQueue_remove_length:
  "TokenQueue_remove input = Inr (t, input1) \<Longrightarrow> length input1 < length input"
  by (auto simp: cursor_defs split: list.splits)

lemma parse_type_length:
  "parse_type input = Inr (ty, input1) \<Longrightarrow> length input1 < length input"
  by (auto simp: parse_type_def cursor_defs split: if_splits list.splits sum.splits)

lemma parse_id_length:
  "parse_id input = Inr (buffer, input1) \<Longrightarrow> length input1 < length input"
  by (auto simp: parse_id_def cursor_defs split: if_splits list.splits sum.splits)

lemma parse_lit_length:
  "parse_lit input = Inr (nd, input1) \<Longrightarrow> length input1 < length input"
  by (auto simp: parse_lit_def cursor_defs split: if_splits list.splits sum.splits)

lemma parse_vardecl_length:
  "parse_vardecl input = Inr (nd, input1) \<Longrightarrow> length input1 < length input"
  unfolding parse_vardecl_def
  by (auto split: if_splits sum.splits prod.splits
        dest!: match_and_discard_next_token_length TokenQueue_remove_length parse_type_length
          parse_id_length)

lemmas helper_lengths =
  match_and_discard_next_token_length TokenQueue_remove_length parse_type_length
  parse_id_length parse_lit_length parse_vardecl_length

lemma expr_length_step:
  "(\<forall>input r q. parse_args n input = Inr (r, q) \<longrightarrow> length q < length input) \<and>
   (\<forall>args input r q. parse_args_loop n args input = Inr (r, q) \<longrightarrow> length q \<le> length input) \<and>
   (\<forall>input r q. parse_funccall n input = Inr (r, q) \<longrightarrow> length q < length input) \<and>
   (\<forall>input r q. parse_base_expr n input = Inr (r, q) \<longrightarrow> length q < length input) \<and>
   (\<forall>input r q. parse_neg n input = Inr (r, q) \<longrightarrow> length q < length input) \<and>
   (\<forall>input r q. parse_mult n input = Inr (r, q) \<longrightarrow> length q < length input) \<and>
   (\<forall>line root input r q. parse_mult_loop n line root input = Inr (r, q) \<longrightarrow> length q \<le> length input) \<and>
   (\<forall>input r q. parse_arith n input = Inr (r, q) \<longrightarrow> length q < length input) \<and>
   (\<forall>line root input r q. parse_arith_loop n line root input = Inr (r, q) \<longrightarrow> length q \<le> length input) \<and>
   (\<forall>input r q. parse_relational n input = Inr (r, q) \<longrightarrow> length q < length input) \<and>
   (\<forall>line root input r q. parse_relational_loop n line root input = Inr (r, q) \<longrightarrow> length q \<le> length input) \<and>
   (\<forall>input r q. parse_equality n input = Inr (r, q) \<longrightarrow> length q < length input) \<and>
   (\<forall>line root input r q. parse_equality_loop n line root input = Inr (r, q) \<longrightarrow> length q \<le> length input) \<and>
   (\<forall>input r q. parse_and n input = Inr (r, q) \<longrightarrow> length q < length input) \<and>
   (\<forall>line root input r q. parse_and_loop n line root input = Inr (r, q) \<longrightarrow> length q \<le> length input) \<and>
   (\<forall>input r q. parse_or n input = Inr (r, q) \<longrightarrow> length q < length input) \<and>
   (\<forall>line root input r q. parse_or_loop n line root input = Inr (r, q) \<longrightarrow> length q \<le> length input) \<and>
   (\<forall>input r q. parse_expr n input = Inr (r, q) \<longrightarrow> length q < length input) \<and>
   (\<forall>input r q. parse_loc n input = Inr (r, q) \<longrightarrow> length q < length input)"
proof (induction n)
  case 0
  show ?case
    by simp
next
  case (Suc n)
  have ih_parse_args: "parse_args n input = Inr (r, q) \<Longrightarrow> length q < length input" for input r q
    using Suc.IH by simp
  have ih_parse_args_loop: "parse_args_loop n args input = Inr (r, q) \<Longrightarrow> length q \<le> length input" for args input r q
    using Suc.IH by simp
  have ih_parse_funccall: "parse_funccall n input = Inr (r, q) \<Longrightarrow> length q < length input" for input r q
    using Suc.IH by simp
  have ih_parse_base_expr: "parse_base_expr n input = Inr (r, q) \<Longrightarrow> length q < length input" for input r q
    using Suc.IH by simp
  have ih_parse_neg: "parse_neg n input = Inr (r, q) \<Longrightarrow> length q < length input" for input r q
    using Suc.IH by simp
  have ih_parse_mult: "parse_mult n input = Inr (r, q) \<Longrightarrow> length q < length input" for input r q
    using Suc.IH by simp
  have ih_parse_mult_loop: "parse_mult_loop n line root input = Inr (r, q) \<Longrightarrow> length q \<le> length input" for line root input r q
    using Suc.IH by simp
  have ih_parse_arith: "parse_arith n input = Inr (r, q) \<Longrightarrow> length q < length input" for input r q
    using Suc.IH by simp
  have ih_parse_arith_loop: "parse_arith_loop n line root input = Inr (r, q) \<Longrightarrow> length q \<le> length input" for line root input r q
    using Suc.IH by simp
  have ih_parse_relational: "parse_relational n input = Inr (r, q) \<Longrightarrow> length q < length input" for input r q
    using Suc.IH by simp
  have ih_parse_relational_loop: "parse_relational_loop n line root input = Inr (r, q) \<Longrightarrow> length q \<le> length input" for line root input r q
    using Suc.IH by simp
  have ih_parse_equality: "parse_equality n input = Inr (r, q) \<Longrightarrow> length q < length input" for input r q
    using Suc.IH by simp
  have ih_parse_equality_loop: "parse_equality_loop n line root input = Inr (r, q) \<Longrightarrow> length q \<le> length input" for line root input r q
    using Suc.IH by simp
  have ih_parse_and: "parse_and n input = Inr (r, q) \<Longrightarrow> length q < length input" for input r q
    using Suc.IH by simp
  have ih_parse_and_loop: "parse_and_loop n line root input = Inr (r, q) \<Longrightarrow> length q \<le> length input" for line root input r q
    using Suc.IH by simp
  have ih_parse_or: "parse_or n input = Inr (r, q) \<Longrightarrow> length q < length input" for input r q
    using Suc.IH by simp
  have ih_parse_or_loop: "parse_or_loop n line root input = Inr (r, q) \<Longrightarrow> length q \<le> length input" for line root input r q
    using Suc.IH by simp
  have ih_parse_expr: "parse_expr n input = Inr (r, q) \<Longrightarrow> length q < length input" for input r q
    using Suc.IH by simp
  have ih_parse_loc: "parse_loc n input = Inr (r, q) \<Longrightarrow> length q < length input" for input r q
    using Suc.IH by simp
  note ih = ih_parse_args ih_parse_args_loop ih_parse_funccall ih_parse_base_expr ih_parse_neg ih_parse_mult ih_parse_mult_loop ih_parse_arith ih_parse_arith_loop ih_parse_relational ih_parse_relational_loop ih_parse_equality ih_parse_equality_loop ih_parse_and ih_parse_and_loop ih_parse_or ih_parse_or_loop ih_parse_expr ih_parse_loc
  have step_parse_args: "length q < length input" if "parse_args (Suc n) input = Inr (r, q)" for input r q
    using that unfolding parse_args.simps(2) [of n input]
    by (auto split: if_splits sum.splits prod.splits dest!: ih helper_lengths)
  have step_parse_args_loop: "length q \<le> length input" if "parse_args_loop (Suc n) args input = Inr (r, q)" for args input r q
    using that unfolding parse_args_loop.simps(2) [of n args input]
    by (auto split: if_splits sum.splits prod.splits dest!: ih helper_lengths)
  have step_parse_funccall: "length q < length input" if "parse_funccall (Suc n) input = Inr (r, q)" for input r q
    using that unfolding parse_funccall.simps(2) [of n input]
    by (auto split: if_splits sum.splits prod.splits dest!: ih helper_lengths)
  have step_parse_base_expr: "length q < length input" if "parse_base_expr (Suc n) input = Inr (r, q)" for input r q
    using that unfolding parse_base_expr.simps(2) [of n input]
    by (auto split: if_splits sum.splits prod.splits dest!: ih helper_lengths)
  have step_parse_neg: "length q < length input" if "parse_neg (Suc n) input = Inr (r, q)" for input r q
    using that unfolding parse_neg.simps(2) [of n input]
    by (auto split: if_splits sum.splits prod.splits dest!: ih helper_lengths)
  have step_parse_mult: "length q < length input" if "parse_mult (Suc n) input = Inr (r, q)" for input r q
    using that unfolding parse_mult.simps(2) [of n input]
    by (auto split: if_splits sum.splits prod.splits dest!: ih helper_lengths)
  have step_parse_mult_loop: "length q \<le> length input" if "parse_mult_loop (Suc n) line root input = Inr (r, q)" for line root input r q
    using that unfolding parse_mult_loop.simps(2) [of n line root input]
    by (auto split: if_splits sum.splits prod.splits dest!: ih helper_lengths)
  have step_parse_arith: "length q < length input" if "parse_arith (Suc n) input = Inr (r, q)" for input r q
    using that unfolding parse_arith.simps(2) [of n input]
    by (auto split: if_splits sum.splits prod.splits dest!: ih helper_lengths)
  have step_parse_arith_loop: "length q \<le> length input" if "parse_arith_loop (Suc n) line root input = Inr (r, q)" for line root input r q
    using that unfolding parse_arith_loop.simps(2) [of n line root input]
    by (auto split: if_splits sum.splits prod.splits dest!: ih helper_lengths)
  have step_parse_relational: "length q < length input" if "parse_relational (Suc n) input = Inr (r, q)" for input r q
    using that unfolding parse_relational.simps(2) [of n input]
    by (auto split: if_splits sum.splits prod.splits dest!: ih helper_lengths)
  have step_parse_relational_loop: "length q \<le> length input" if "parse_relational_loop (Suc n) line root input = Inr (r, q)" for line root input r q
    using that unfolding parse_relational_loop.simps(2) [of n line root input]
    by (auto split: if_splits sum.splits prod.splits dest!: ih helper_lengths)
  have step_parse_equality: "length q < length input" if "parse_equality (Suc n) input = Inr (r, q)" for input r q
    using that unfolding parse_equality.simps(2) [of n input]
    by (auto split: if_splits sum.splits prod.splits dest!: ih helper_lengths)
  have step_parse_equality_loop: "length q \<le> length input" if "parse_equality_loop (Suc n) line root input = Inr (r, q)" for line root input r q
    using that unfolding parse_equality_loop.simps(2) [of n line root input]
    by (auto split: if_splits sum.splits prod.splits dest!: ih helper_lengths)
  have step_parse_and: "length q < length input" if "parse_and (Suc n) input = Inr (r, q)" for input r q
    using that unfolding parse_and.simps(2) [of n input]
    by (auto split: if_splits sum.splits prod.splits dest!: ih helper_lengths)
  have step_parse_and_loop: "length q \<le> length input" if "parse_and_loop (Suc n) line root input = Inr (r, q)" for line root input r q
    using that unfolding parse_and_loop.simps(2) [of n line root input]
    by (auto split: if_splits sum.splits prod.splits dest!: ih helper_lengths)
  have step_parse_or: "length q < length input" if "parse_or (Suc n) input = Inr (r, q)" for input r q
    using that unfolding parse_or.simps(2) [of n input]
    by (auto split: if_splits sum.splits prod.splits dest!: ih helper_lengths)
  have step_parse_or_loop: "length q \<le> length input" if "parse_or_loop (Suc n) line root input = Inr (r, q)" for line root input r q
    using that unfolding parse_or_loop.simps(2) [of n line root input]
    by (auto split: if_splits sum.splits prod.splits dest!: ih helper_lengths)
  have step_parse_expr: "length q < length input" if "parse_expr (Suc n) input = Inr (r, q)" for input r q
    using that unfolding parse_expr.simps(2) [of n input]
    by (auto split: if_splits sum.splits prod.splits dest!: ih helper_lengths)
  have step_parse_loc: "length q < length input" if "parse_loc (Suc n) input = Inr (r, q)" for input r q
    using that unfolding parse_loc.simps(2) [of n input]
    by (auto split: if_splits sum.splits prod.splits dest!: ih helper_lengths)
  show ?case
    using step_parse_args step_parse_args_loop step_parse_funccall step_parse_base_expr step_parse_neg step_parse_mult step_parse_mult_loop step_parse_arith step_parse_arith_loop step_parse_relational step_parse_relational_loop step_parse_equality step_parse_equality_loop step_parse_and step_parse_and_loop step_parse_or step_parse_or_loop step_parse_expr step_parse_loc by blast
qed

lemma parse_args_length:
  "parse_args n input = Inr (r, q) \<Longrightarrow> length q < length input"
  using expr_length_step [of n] by simp

lemma parse_args_loop_length:
  "parse_args_loop n args input = Inr (r, q) \<Longrightarrow> length q \<le> length input"
  using expr_length_step [of n] by simp

lemma parse_funccall_length:
  "parse_funccall n input = Inr (r, q) \<Longrightarrow> length q < length input"
  using expr_length_step [of n] by simp

lemma parse_base_expr_length:
  "parse_base_expr n input = Inr (r, q) \<Longrightarrow> length q < length input"
  using expr_length_step [of n] by simp

lemma parse_neg_length:
  "parse_neg n input = Inr (r, q) \<Longrightarrow> length q < length input"
  using expr_length_step [of n] by simp

lemma parse_mult_length:
  "parse_mult n input = Inr (r, q) \<Longrightarrow> length q < length input"
  using expr_length_step [of n] by simp

lemma parse_mult_loop_length:
  "parse_mult_loop n line root input = Inr (r, q) \<Longrightarrow> length q \<le> length input"
  using expr_length_step [of n] by simp

lemma parse_arith_length:
  "parse_arith n input = Inr (r, q) \<Longrightarrow> length q < length input"
  using expr_length_step [of n] by simp

lemma parse_arith_loop_length:
  "parse_arith_loop n line root input = Inr (r, q) \<Longrightarrow> length q \<le> length input"
  using expr_length_step [of n] by simp

lemma parse_relational_length:
  "parse_relational n input = Inr (r, q) \<Longrightarrow> length q < length input"
  using expr_length_step [of n] by simp

lemma parse_relational_loop_length:
  "parse_relational_loop n line root input = Inr (r, q) \<Longrightarrow> length q \<le> length input"
  using expr_length_step [of n] by simp

lemma parse_equality_length:
  "parse_equality n input = Inr (r, q) \<Longrightarrow> length q < length input"
  using expr_length_step [of n] by simp

lemma parse_equality_loop_length:
  "parse_equality_loop n line root input = Inr (r, q) \<Longrightarrow> length q \<le> length input"
  using expr_length_step [of n] by simp

lemma parse_and_length:
  "parse_and n input = Inr (r, q) \<Longrightarrow> length q < length input"
  using expr_length_step [of n] by simp

lemma parse_and_loop_length:
  "parse_and_loop n line root input = Inr (r, q) \<Longrightarrow> length q \<le> length input"
  using expr_length_step [of n] by simp

lemma parse_or_length:
  "parse_or n input = Inr (r, q) \<Longrightarrow> length q < length input"
  using expr_length_step [of n] by simp

lemma parse_or_loop_length:
  "parse_or_loop n line root input = Inr (r, q) \<Longrightarrow> length q \<le> length input"
  using expr_length_step [of n] by simp

lemma parse_expr_length:
  "parse_expr n input = Inr (r, q) \<Longrightarrow> length q < length input"
  using expr_length_step [of n] by simp

lemma parse_loc_length:
  "parse_loc n input = Inr (r, q) \<Longrightarrow> length q < length input"
  using expr_length_step [of n] by simp

lemmas expr_lengths =
  parse_args_length
  parse_args_loop_length
  parse_funccall_length
  parse_base_expr_length
  parse_neg_length
  parse_mult_length
  parse_mult_loop_length
  parse_arith_length
  parse_arith_loop_length
  parse_relational_length
  parse_relational_loop_length
  parse_equality_length
  parse_equality_loop_length
  parse_and_length
  parse_and_loop_length
  parse_or_length
  parse_or_loop_length
  parse_expr_length
  parse_loc_length

lemma stmt_length_step:
  "(\<forall>input r q. parse_conditional n input = Inr (r, q) \<longrightarrow> length q < length input) \<and>
   (\<forall>input r q. parse_while n input = Inr (r, q) \<longrightarrow> length q < length input) \<and>
   (\<forall>input r q. parse_statement n input = Inr (r, q) \<longrightarrow> length q < length input) \<and>
   (\<forall>input r q. parse_block n input = Inr (r, q) \<longrightarrow> length q < length input) \<and>
   (\<forall>vars stmnts input r q. parse_block_loop n vars stmnts input = Inr (r, q) \<longrightarrow> length q \<le> length input)"
proof (induction n)
  case 0
  show ?case
    by simp
next
  case (Suc n)
  have ih_parse_conditional: "parse_conditional n input = Inr (r, q) \<Longrightarrow> length q < length input" for input r q
    using Suc.IH by simp
  have ih_parse_while: "parse_while n input = Inr (r, q) \<Longrightarrow> length q < length input" for input r q
    using Suc.IH by simp
  have ih_parse_statement: "parse_statement n input = Inr (r, q) \<Longrightarrow> length q < length input" for input r q
    using Suc.IH by simp
  have ih_parse_block: "parse_block n input = Inr (r, q) \<Longrightarrow> length q < length input" for input r q
    using Suc.IH by simp
  have ih_parse_block_loop: "parse_block_loop n vars stmnts input = Inr (r, q) \<Longrightarrow> length q \<le> length input" for vars stmnts input r q
    using Suc.IH by (cases r) simp
  note ih = ih_parse_conditional ih_parse_while ih_parse_statement ih_parse_block ih_parse_block_loop
  have step_parse_conditional: "length q < length input" if "parse_conditional (Suc n) input = Inr (r, q)" for input r q
    using that unfolding parse_conditional.simps(2) [of n input]
    by (auto split: if_splits sum.splits prod.splits dest!: ih helper_lengths parse_expr_length parse_funccall_length parse_loc_length)
  have step_parse_while: "length q < length input" if "parse_while (Suc n) input = Inr (r, q)" for input r q
    using that unfolding parse_while.simps(2) [of n input]
    by (auto split: if_splits sum.splits prod.splits dest!: ih helper_lengths parse_expr_length parse_funccall_length parse_loc_length)
  have step_parse_statement: "length q < length input" if "parse_statement (Suc n) input = Inr (r, q)" for input r q
    using that unfolding parse_statement.simps(2) [of n input]
    by (auto split: if_splits sum.splits prod.splits dest!: ih helper_lengths parse_expr_length parse_funccall_length parse_loc_length)
  have step_parse_block: "length q < length input" if "parse_block (Suc n) input = Inr (r, q)" for input r q
    using that unfolding parse_block.simps(2) [of n input]
    by (auto split: if_splits sum.splits prod.splits dest!: ih helper_lengths parse_expr_length parse_funccall_length parse_loc_length)
  have step_parse_block_loop: "length q \<le> length input" if "parse_block_loop (Suc n) vars stmnts input = Inr (r, q)" for vars stmnts input r q
    using that unfolding parse_block_loop.simps(2) [of n vars stmnts input]
    by (auto split: if_splits sum.splits prod.splits dest!: ih helper_lengths parse_expr_length parse_funccall_length parse_loc_length)
  show ?case
    using step_parse_conditional step_parse_while step_parse_statement step_parse_block step_parse_block_loop by blast
qed

lemma parse_conditional_length:
  "parse_conditional n input = Inr (r, q) \<Longrightarrow> length q < length input"
  using stmt_length_step [of n] by simp

lemma parse_while_length:
  "parse_while n input = Inr (r, q) \<Longrightarrow> length q < length input"
  using stmt_length_step [of n] by simp

lemma parse_statement_length:
  "parse_statement n input = Inr (r, q) \<Longrightarrow> length q < length input"
  using stmt_length_step [of n] by simp

lemma parse_block_length:
  "parse_block n input = Inr (r, q) \<Longrightarrow> length q < length input"
  using stmt_length_step [of n] by simp

lemma parse_block_loop_length:
  "parse_block_loop n vars stmnts input = Inr (r, q) \<Longrightarrow> length q \<le> length input"
  using stmt_length_step [of n] by (cases r) simp

lemmas stmt_lengths =
  parse_conditional_length
  parse_while_length
  parse_statement_length
  parse_block_length
  parse_block_loop_length

section \<open>Every parse terminates\<close>

lemma settles_const: "c \<noteq> Inl Out_of_fuel \<Longrightarrow> settles (\<lambda>n. c)"
  by (auto simp: settles_def)

lemma settles_Suc: "settles (\<lambda>n. f (Suc n)) \<Longrightarrow> settles f"
proof -
  assume "settles (\<lambda>n. f (Suc n))"
  then obtain n where n: "f (Suc n) \<noteq> Inl Out_of_fuel" "\<And>k. f (Suc (n + k)) = f (Suc n)"
    by (auto simp: settles_def)
  then have "f (Suc n) \<noteq> Inl Out_of_fuel \<and> (\<forall>k. f (Suc n + k) = f (Suc n))"
    by simp
  then show ?thesis
    unfolding settles_def by blast
qed

lemma settles_if:
  "(c \<Longrightarrow> settles a) \<Longrightarrow> (\<not> c \<Longrightarrow> settles b) \<Longrightarrow> settles (\<lambda>n. if c then a n else b n)"
  by (cases c) (simp_all add: settles_def)

lemma settles_prod:
  "(\<And>a b. p = (a, b) \<Longrightarrow> settles (\<lambda>n. f n a b)) \<Longrightarrow>
   settles (\<lambda>n. case p of (a, b) \<Rightarrow> f n a b)"
  by (cases p) simp

lemma settles_bind:
  assumes F: "settles F"
    and K: "\<And>x n. F n = Inr x \<Longrightarrow> settles (\<lambda>m. K m x)"
  shows "settles (\<lambda>m. case F m of Inl e \<Rightarrow> Inl e | Inr x \<Rightarrow> K m x)"
proof -
  from F obtain n1 where n1: "F n1 \<noteq> Inl Out_of_fuel" "\<And>k. F (n1 + k) = F n1"
    by (auto simp: settles_def)
  show ?thesis
  proof (cases "F n1")
    case (Inl e)
    with n1 have "(case F n1 of Inl e \<Rightarrow> Inl e | Inr x \<Rightarrow> K n1 x) \<noteq> Inl Out_of_fuel \<and>
        (\<forall>k. (case F (n1 + k) of Inl e \<Rightarrow> Inl e | Inr x \<Rightarrow> K (n1 + k) x)
           = (case F n1 of Inl e \<Rightarrow> Inl e | Inr x \<Rightarrow> K n1 x))"
      by simp
    then show ?thesis
      unfolding settles_def by blast
  next
    case (Inr x)
    from K [OF Inr] obtain n2 where
      n2: "K n2 x \<noteq> Inl Out_of_fuel" "\<And>k. K (n2 + k) x = K n2 x"
      by (auto simp: settles_def)
    have F': "F (n1 + n2 + k) = Inr x" for k
      using n1(2) [of "n2 + k"] Inr by (simp add: add.assoc)
    have K': "K (n1 + n2 + k) x = K n2 x" for k
      using n2(2) [of "n1 + k"] by (simp add: add.commute add.left_commute)
    have "(case F (n1 + n2) of Inl e \<Rightarrow> Inl e | Inr x \<Rightarrow> K (n1 + n2) x) \<noteq> Inl Out_of_fuel \<and>
        (\<forall>k. (case F (n1 + n2 + k) of Inl e \<Rightarrow> Inl e | Inr x \<Rightarrow> K (n1 + n2 + k) x)
           = (case F (n1 + n2) of Inl e \<Rightarrow> Inl e | Inr x \<Rightarrow> K (n1 + n2) x))"
      using F' [of 0] K' [of 0] F' K' n2(1) by simp
    then show ?thesis
      unfolding settles_def by blast
  qed
qed

text \<open>The functions that take no budget never report its end.\<close>

lemma bind_fuel:
  "r \<noteq> Inl Out_of_fuel \<Longrightarrow> (\<And>x. r = Inr x \<Longrightarrow> k x \<noteq> Inl Out_of_fuel) \<Longrightarrow>
   (case r of Inl e \<Rightarrow> Inl e | Inr x \<Rightarrow> k x) \<noteq> Inl Out_of_fuel"
  by (cases r) auto

lemma if_fuel:
  "(c \<Longrightarrow> a \<noteq> Inl Out_of_fuel) \<Longrightarrow> (\<not> c \<Longrightarrow> b \<noteq> Inl Out_of_fuel) \<Longrightarrow>
   (if c then a else b) \<noteq> Inl Out_of_fuel"
  by simp

lemma prod_fuel:
  "(\<And>a b. p = (a, b) \<Longrightarrow> f a b \<noteq> Inl Out_of_fuel) \<Longrightarrow>
   (case p of (a, b) \<Rightarrow> f a b) \<noteq> Inl Out_of_fuel"
  by (cases p) simp

lemma Inr_fuel: "Inr x \<noteq> Inl Out_of_fuel"
  by simp

lemma get_next_token_line_fuel: "get_next_token_line input \<noteq> Inl Out_of_fuel"
  by (simp add: get_next_token_line_def TokenQueue_peek_def split: list.splits)

lemma TokenQueue_remove_fuel: "TokenQueue_remove input \<noteq> Inl Out_of_fuel"
  by (simp add: TokenQueue_remove_def split: list.splits)

lemma mismatch_fuel:
  "(case get_next_token_line input of Inl e \<Rightarrow> Inl e | Inr ln \<Rightarrow> Inl (f ln)) \<noteq> Inl Out_of_fuel"
  if "\<And>ln. f ln \<noteq> Out_of_fuel"
  using that by (simp add: get_next_token_line_def TokenQueue_peek_def split: list.splits)

lemma match_and_discard_next_token_fuel:
  "match_and_discard_next_token input ty txt \<noteq> Inl Out_of_fuel"
  unfolding match_and_discard_next_token_def
  by (intro if_fuel bind_fuel prod_fuel TokenQueue_remove_fuel mismatch_fuel Inr_fuel) simp_all

lemma check_id_then_paren_fuel: "check_id_then_paren input \<noteq> Inl Out_of_fuel"
  by (simp add: check_id_then_paren_def head_next_text_def split: list.splits)

lemma parse_type_fuel: "parse_type input \<noteq> Inl Out_of_fuel"
  unfolding parse_type_def
  by (intro if_fuel bind_fuel prod_fuel TokenQueue_remove_fuel mismatch_fuel Inr_fuel) simp_all

lemma parse_id_fuel: "parse_id input \<noteq> Inl Out_of_fuel"
  unfolding parse_id_def
  by (intro if_fuel bind_fuel prod_fuel TokenQueue_remove_fuel mismatch_fuel Inr_fuel) simp_all

lemma strncat_within_fuel: "strncat_within buf p p2 n \<noteq> Inl Out_of_fuel"
  by (simp add: strncat_within_def Let_def)

lemma string_literal_text_fuel: "string_literal_text s \<noteq> Inl Out_of_fuel"
proof -
  have k: "(case strncat_within b p q n of Inl e \<Rightarrow> Inl e | Inr buf \<Rightarrow> Inr (f buf))
      \<noteq> (Inl Out_of_fuel :: error + string)" for b p q n f
    by (intro bind_fuel strncat_within_fuel Inr_fuel)
  show ?thesis
    unfolding string_literal_text_def Let_def
    by (simp add: k split: option.split prod.split)
qed

lemma parse_lit_fuel: "parse_lit input \<noteq> Inl Out_of_fuel"
  unfolding parse_lit_def
  by (intro if_fuel bind_fuel prod_fuel TokenQueue_remove_fuel get_next_token_line_fuel
        string_literal_text_fuel Inr_fuel) simp_all

lemma parse_vardecl_fuel: "parse_vardecl input \<noteq> Inl Out_of_fuel"
  unfolding parse_vardecl_def
  by (intro if_fuel bind_fuel prod_fuel TokenQueue_remove_fuel get_next_token_line_fuel
        match_and_discard_next_token_fuel parse_type_fuel parse_id_fuel Inr_fuel) simp_all

lemma parse_params_loop_fuel: "parse_params_loop params input \<noteq> Inl Out_of_fuel"
proof (induction "length input" arbitrary: params input rule: less_induct)
  case less
  show ?case
    apply (subst parse_params_loop.simps)
    apply (intro if_fuel bind_fuel prod_fuel match_and_discard_next_token_fuel parse_type_fuel
        parse_id_fuel Inr_fuel less.hyps)
    apply (auto dest!: helper_lengths)
    done
qed

lemma parse_params_fuel: "parse_params input \<noteq> Inl Out_of_fuel"
  unfolding parse_params_def
  by (intro if_fuel bind_fuel prod_fuel parse_type_fuel parse_id_fuel parse_params_loop_fuel
        Inr_fuel) simp_all

lemmas helper_fuels =
  get_next_token_line_fuel TokenQueue_remove_fuel match_and_discard_next_token_fuel
  check_id_then_paren_fuel parse_type_fuel parse_id_fuel parse_lit_fuel parse_vardecl_fuel
  parse_params_fuel

lemma settles_helper: "c \<noteq> Inl Out_of_fuel \<Longrightarrow> settles (\<lambda>n. c)"
  by (rule settles_const)

lemma expr_settles:
  "settles (\<lambda>n. parse_args n input) \<and>
   (\<forall>args. settles (\<lambda>n. parse_args_loop n args input)) \<and>
   settles (\<lambda>n. parse_funccall n input) \<and>
   settles (\<lambda>n. parse_base_expr n input) \<and>
   settles (\<lambda>n. parse_neg n input) \<and>
   settles (\<lambda>n. parse_mult n input) \<and>
   (\<forall>line root. settles (\<lambda>n. parse_mult_loop n line root input)) \<and>
   settles (\<lambda>n. parse_arith n input) \<and>
   (\<forall>line root. settles (\<lambda>n. parse_arith_loop n line root input)) \<and>
   settles (\<lambda>n. parse_relational n input) \<and>
   (\<forall>line root. settles (\<lambda>n. parse_relational_loop n line root input)) \<and>
   settles (\<lambda>n. parse_equality n input) \<and>
   (\<forall>line root. settles (\<lambda>n. parse_equality_loop n line root input)) \<and>
   settles (\<lambda>n. parse_and n input) \<and>
   (\<forall>line root. settles (\<lambda>n. parse_and_loop n line root input)) \<and>
   settles (\<lambda>n. parse_or n input) \<and>
   (\<forall>line root. settles (\<lambda>n. parse_or_loop n line root input)) \<and>
   settles (\<lambda>n. parse_expr n input) \<and>
   settles (\<lambda>n. parse_loc n input)"
proof (induction "length input" arbitrary: input rule: less_induct)
  case less
  have ih_parse_args: "settles (\<lambda>n. parse_args n q)" if "length q < length input" for q
    using less [OF that] by simp
  have ih_parse_args_loop: "settles (\<lambda>n. parse_args_loop n args q)" if "length q < length input" for args q
    using less [OF that] by simp
  have ih_parse_funccall: "settles (\<lambda>n. parse_funccall n q)" if "length q < length input" for q
    using less [OF that] by simp
  have ih_parse_base_expr: "settles (\<lambda>n. parse_base_expr n q)" if "length q < length input" for q
    using less [OF that] by simp
  have ih_parse_neg: "settles (\<lambda>n. parse_neg n q)" if "length q < length input" for q
    using less [OF that] by simp
  have ih_parse_mult: "settles (\<lambda>n. parse_mult n q)" if "length q < length input" for q
    using less [OF that] by simp
  have ih_parse_mult_loop: "settles (\<lambda>n. parse_mult_loop n line root q)" if "length q < length input" for line root q
    using less [OF that] by simp
  have ih_parse_arith: "settles (\<lambda>n. parse_arith n q)" if "length q < length input" for q
    using less [OF that] by simp
  have ih_parse_arith_loop: "settles (\<lambda>n. parse_arith_loop n line root q)" if "length q < length input" for line root q
    using less [OF that] by simp
  have ih_parse_relational: "settles (\<lambda>n. parse_relational n q)" if "length q < length input" for q
    using less [OF that] by simp
  have ih_parse_relational_loop: "settles (\<lambda>n. parse_relational_loop n line root q)" if "length q < length input" for line root q
    using less [OF that] by simp
  have ih_parse_equality: "settles (\<lambda>n. parse_equality n q)" if "length q < length input" for q
    using less [OF that] by simp
  have ih_parse_equality_loop: "settles (\<lambda>n. parse_equality_loop n line root q)" if "length q < length input" for line root q
    using less [OF that] by simp
  have ih_parse_and: "settles (\<lambda>n. parse_and n q)" if "length q < length input" for q
    using less [OF that] by simp
  have ih_parse_and_loop: "settles (\<lambda>n. parse_and_loop n line root q)" if "length q < length input" for line root q
    using less [OF that] by simp
  have ih_parse_or: "settles (\<lambda>n. parse_or n q)" if "length q < length input" for q
    using less [OF that] by simp
  have ih_parse_or_loop: "settles (\<lambda>n. parse_or_loop n line root q)" if "length q < length input" for line root q
    using less [OF that] by simp
  have ih_parse_expr: "settles (\<lambda>n. parse_expr n q)" if "length q < length input" for q
    using less [OF that] by simp
  have ih_parse_loc: "settles (\<lambda>n. parse_loc n q)" if "length q < length input" for q
    using less [OF that] by simp
  have s_parse_args_loop: "settles (\<lambda>n. parse_args_loop n args input)" for args
    apply (rule settles_Suc)
    unfolding parse_args_loop.simps(2)
    apply (intro settles_bind settles_if settles_prod settles_const ih_parse_expr ih_parse_args_loop)
    apply (auto simp: helper_fuels dest!: helper_lengths expr_lengths)
    done
  have s_parse_mult_loop: "settles (\<lambda>n. parse_mult_loop n line root input)" for line root
    apply (rule settles_Suc)
    unfolding parse_mult_loop.simps(2)
    apply (intro settles_bind settles_if settles_prod settles_const ih_parse_neg ih_parse_mult_loop)
    apply (auto simp: helper_fuels dest!: helper_lengths expr_lengths)
    done
  have s_parse_arith_loop: "settles (\<lambda>n. parse_arith_loop n line root input)" for line root
    apply (rule settles_Suc)
    unfolding parse_arith_loop.simps(2)
    apply (intro settles_bind settles_if settles_prod settles_const ih_parse_mult ih_parse_arith_loop)
    apply (auto simp: helper_fuels dest!: helper_lengths expr_lengths)
    done
  have s_parse_relational_loop: "settles (\<lambda>n. parse_relational_loop n line root input)" for line root
    apply (rule settles_Suc)
    unfolding parse_relational_loop.simps(2)
    apply (intro settles_bind settles_if settles_prod settles_const ih_parse_arith ih_parse_relational_loop)
    apply (auto simp: helper_fuels dest!: helper_lengths expr_lengths)
    done
  have s_parse_equality_loop: "settles (\<lambda>n. parse_equality_loop n line root input)" for line root
    apply (rule settles_Suc)
    unfolding parse_equality_loop.simps(2)
    apply (intro settles_bind settles_if settles_prod settles_const ih_parse_relational ih_parse_equality_loop)
    apply (auto simp: helper_fuels dest!: helper_lengths expr_lengths)
    done
  have s_parse_and_loop: "settles (\<lambda>n. parse_and_loop n line root input)" for line root
    apply (rule settles_Suc)
    unfolding parse_and_loop.simps(2)
    apply (intro settles_bind settles_if settles_prod settles_const ih_parse_equality ih_parse_and_loop)
    apply (auto simp: helper_fuels dest!: helper_lengths expr_lengths)
    done
  have s_parse_or_loop: "settles (\<lambda>n. parse_or_loop n line root input)" for line root
    apply (rule settles_Suc)
    unfolding parse_or_loop.simps(2)
    apply (intro settles_bind settles_if settles_prod settles_const ih_parse_and ih_parse_or_loop)
    apply (auto simp: helper_fuels dest!: helper_lengths expr_lengths)
    done
  have s_parse_loc: "settles (\<lambda>n. parse_loc n input)"
    apply (rule settles_Suc)
    unfolding parse_loc.simps(2)
    apply (intro settles_bind settles_if settles_prod settles_const ih_parse_expr)
    apply (auto simp: helper_fuels dest!: helper_lengths expr_lengths)
    done
  have s_parse_funccall: "settles (\<lambda>n. parse_funccall n input)"
    apply (rule settles_Suc)
    unfolding parse_funccall.simps(2)
    apply (intro settles_bind settles_if settles_prod settles_const ih_parse_args)
    apply (auto simp: helper_fuels dest!: helper_lengths expr_lengths)
    done
  have s_parse_base_expr: "settles (\<lambda>n. parse_base_expr n input)"
    apply (rule settles_Suc)
    unfolding parse_base_expr.simps(2)
    apply (intro settles_bind settles_if settles_prod settles_const s_parse_funccall s_parse_loc ih_parse_expr)
    apply (auto simp: helper_fuels dest!: helper_lengths expr_lengths)
    done
  have s_parse_neg: "settles (\<lambda>n. parse_neg n input)"
    apply (rule settles_Suc)
    unfolding parse_neg.simps(2)
    apply (intro settles_bind settles_if settles_prod settles_const s_parse_base_expr ih_parse_base_expr)
    apply (auto simp: helper_fuels dest!: helper_lengths expr_lengths)
    done
  have s_parse_mult: "settles (\<lambda>n. parse_mult n input)"
    apply (rule settles_Suc)
    unfolding parse_mult.simps(2)
    apply (intro settles_bind settles_if settles_prod settles_const s_parse_neg ih_parse_mult_loop)
    apply (auto simp: helper_fuels dest!: helper_lengths expr_lengths)
    done
  have s_parse_arith: "settles (\<lambda>n. parse_arith n input)"
    apply (rule settles_Suc)
    unfolding parse_arith.simps(2)
    apply (intro settles_bind settles_if settles_prod settles_const s_parse_mult ih_parse_arith_loop)
    apply (auto simp: helper_fuels dest!: helper_lengths expr_lengths)
    done
  have s_parse_relational: "settles (\<lambda>n. parse_relational n input)"
    apply (rule settles_Suc)
    unfolding parse_relational.simps(2)
    apply (intro settles_bind settles_if settles_prod settles_const s_parse_arith ih_parse_relational_loop)
    apply (auto simp: helper_fuels dest!: helper_lengths expr_lengths)
    done
  have s_parse_equality: "settles (\<lambda>n. parse_equality n input)"
    apply (rule settles_Suc)
    unfolding parse_equality.simps(2)
    apply (intro settles_bind settles_if settles_prod settles_const s_parse_relational ih_parse_equality_loop)
    apply (auto simp: helper_fuels dest!: helper_lengths expr_lengths)
    done
  have s_parse_and: "settles (\<lambda>n. parse_and n input)"
    apply (rule settles_Suc)
    unfolding parse_and.simps(2)
    apply (intro settles_bind settles_if settles_prod settles_const s_parse_equality ih_parse_and_loop)
    apply (auto simp: helper_fuels dest!: helper_lengths expr_lengths)
    done
  have s_parse_or: "settles (\<lambda>n. parse_or n input)"
    apply (rule settles_Suc)
    unfolding parse_or.simps(2)
    apply (intro settles_bind settles_if settles_prod settles_const s_parse_and ih_parse_or_loop)
    apply (auto simp: helper_fuels dest!: helper_lengths expr_lengths)
    done
  have s_parse_expr: "settles (\<lambda>n. parse_expr n input)"
    apply (rule settles_Suc)
    unfolding parse_expr.simps(2)
    apply (intro settles_bind settles_if settles_prod settles_const s_parse_or)
    apply (auto simp: helper_fuels dest!: helper_lengths expr_lengths)
    done
  have s_parse_args: "settles (\<lambda>n. parse_args n input)"
    apply (rule settles_Suc)
    unfolding parse_args.simps(2)
    apply (intro settles_bind settles_if settles_prod settles_const s_parse_expr ih_parse_args_loop)
    apply (auto simp: helper_fuels dest!: helper_lengths expr_lengths)
    done
  show ?case
    using s_parse_args s_parse_args_loop s_parse_funccall s_parse_base_expr s_parse_neg s_parse_mult s_parse_mult_loop s_parse_arith s_parse_arith_loop s_parse_relational s_parse_relational_loop s_parse_equality s_parse_equality_loop s_parse_and s_parse_and_loop s_parse_or s_parse_or_loop s_parse_expr s_parse_loc by simp
qed

lemma parse_args_settles: "settles (\<lambda>n. parse_args n input)"
  using expr_settles [of input] by simp

lemma parse_args_loop_settles: "settles (\<lambda>n. parse_args_loop n args input)"
  using expr_settles [of input] by simp

lemma parse_funccall_settles: "settles (\<lambda>n. parse_funccall n input)"
  using expr_settles [of input] by simp

lemma parse_base_expr_settles: "settles (\<lambda>n. parse_base_expr n input)"
  using expr_settles [of input] by simp

lemma parse_neg_settles: "settles (\<lambda>n. parse_neg n input)"
  using expr_settles [of input] by simp

lemma parse_mult_settles: "settles (\<lambda>n. parse_mult n input)"
  using expr_settles [of input] by simp

lemma parse_mult_loop_settles: "settles (\<lambda>n. parse_mult_loop n line root input)"
  using expr_settles [of input] by simp

lemma parse_arith_settles: "settles (\<lambda>n. parse_arith n input)"
  using expr_settles [of input] by simp

lemma parse_arith_loop_settles: "settles (\<lambda>n. parse_arith_loop n line root input)"
  using expr_settles [of input] by simp

lemma parse_relational_settles: "settles (\<lambda>n. parse_relational n input)"
  using expr_settles [of input] by simp

lemma parse_relational_loop_settles: "settles (\<lambda>n. parse_relational_loop n line root input)"
  using expr_settles [of input] by simp

lemma parse_equality_settles: "settles (\<lambda>n. parse_equality n input)"
  using expr_settles [of input] by simp

lemma parse_equality_loop_settles: "settles (\<lambda>n. parse_equality_loop n line root input)"
  using expr_settles [of input] by simp

lemma parse_and_settles: "settles (\<lambda>n. parse_and n input)"
  using expr_settles [of input] by simp

lemma parse_and_loop_settles: "settles (\<lambda>n. parse_and_loop n line root input)"
  using expr_settles [of input] by simp

lemma parse_or_settles: "settles (\<lambda>n. parse_or n input)"
  using expr_settles [of input] by simp

lemma parse_or_loop_settles: "settles (\<lambda>n. parse_or_loop n line root input)"
  using expr_settles [of input] by simp

lemma parse_expr_settles: "settles (\<lambda>n. parse_expr n input)"
  using expr_settles [of input] by simp

lemma parse_loc_settles: "settles (\<lambda>n. parse_loc n input)"
  using expr_settles [of input] by simp

lemma stmt_settles:
  "settles (\<lambda>n. parse_conditional n input) \<and>
   settles (\<lambda>n. parse_while n input) \<and>
   settles (\<lambda>n. parse_statement n input) \<and>
   settles (\<lambda>n. parse_block n input) \<and>
   (\<forall>vars stmnts. settles (\<lambda>n. parse_block_loop n vars stmnts input))"
proof (induction "length input" arbitrary: input rule: less_induct)
  case less
  have ih_parse_conditional: "settles (\<lambda>n. parse_conditional n q)" if "length q < length input" for q
    using less [OF that] by simp
  have ih_parse_while: "settles (\<lambda>n. parse_while n q)" if "length q < length input" for q
    using less [OF that] by simp
  have ih_parse_statement: "settles (\<lambda>n. parse_statement n q)" if "length q < length input" for q
    using less [OF that] by simp
  have ih_parse_block: "settles (\<lambda>n. parse_block n q)" if "length q < length input" for q
    using less [OF that] by simp
  have ih_parse_block_loop: "settles (\<lambda>n. parse_block_loop n vars stmnts q)" if "length q < length input" for vars stmnts q
    using less [OF that] by simp
  have s_parse_while: "settles (\<lambda>n. parse_while n input)"
    apply (rule settles_Suc)
    unfolding parse_while.simps(2)
    apply (intro settles_bind settles_if settles_prod settles_const ih_parse_block parse_expr_settles parse_funccall_settles parse_loc_settles)
    apply (auto simp: helper_fuels dest!: helper_lengths expr_lengths stmt_lengths)
    done
  have s_parse_conditional: "settles (\<lambda>n. parse_conditional n input)"
    apply (rule settles_Suc)
    unfolding parse_conditional.simps(2)
    apply (intro settles_bind settles_if settles_prod settles_const ih_parse_block parse_expr_settles parse_funccall_settles parse_loc_settles)
    apply (auto simp: helper_fuels dest!: helper_lengths expr_lengths stmt_lengths)
    done
  have s_parse_statement: "settles (\<lambda>n. parse_statement n input)"
    apply (rule settles_Suc)
    unfolding parse_statement.simps(2)
    apply (intro settles_bind settles_if settles_prod settles_const s_parse_while s_parse_conditional parse_expr_settles parse_funccall_settles parse_loc_settles)
    apply (auto simp: helper_fuels dest!: helper_lengths expr_lengths stmt_lengths)
    done
  have s_parse_block_loop: "settles (\<lambda>n. parse_block_loop n vars stmnts input)" for vars stmnts
    apply (rule settles_Suc)
    unfolding parse_block_loop.simps(2)
    apply (intro settles_bind settles_if settles_prod settles_const s_parse_statement ih_parse_block_loop parse_expr_settles parse_funccall_settles parse_loc_settles)
    apply (auto simp: helper_fuels dest!: helper_lengths expr_lengths stmt_lengths)
    done
  have s_parse_block: "settles (\<lambda>n. parse_block n input)"
    apply (rule settles_Suc)
    unfolding parse_block.simps(2)
    apply (intro settles_bind settles_if settles_prod settles_const ih_parse_block_loop parse_expr_settles parse_funccall_settles parse_loc_settles)
    apply (auto simp: helper_fuels dest!: helper_lengths expr_lengths stmt_lengths)
    done
  show ?case
    using s_parse_conditional s_parse_while s_parse_statement s_parse_block s_parse_block_loop by simp
qed

lemma parse_conditional_settles: "settles (\<lambda>n. parse_conditional n input)"
  using stmt_settles [of input] by simp

lemma parse_while_settles: "settles (\<lambda>n. parse_while n input)"
  using stmt_settles [of input] by simp

lemma parse_statement_settles: "settles (\<lambda>n. parse_statement n input)"
  using stmt_settles [of input] by simp

lemma parse_block_settles: "settles (\<lambda>n. parse_block n input)"
  using stmt_settles [of input] by simp

lemma parse_block_loop_settles: "settles (\<lambda>n. parse_block_loop n vars stmnts input)"
  using stmt_settles [of input] by simp

lemma parse_params_loop_length:
  "parse_params_loop params input = Inr (ps, input1) \<Longrightarrow> length input1 \<le> length input"
proof (induction "length input" arbitrary: params input rule: less_induct)
  case less
  note eq = parse_params_loop.simps [of params input]
  show ?case
  proof (cases "check_next_token input SYM '')''")
    case True
    with less.prems eq show ?thesis
      by (simp del: parse_params_loop.simps)
  next
    case False
    from less.prems False eq obtain input1' type input2 buffer input3
      where a: "match_and_discard_next_token input SYM '','' = Inr input1'"
        and b: "parse_type input1' = Inr (type, input2)"
        and c: "parse_id input2 = Inr (buffer, input3)"
        and d: "parse_params_loop (params @ [(buffer, type)]) input3 = Inr (ps, input1)"
      by (auto simp del: parse_params_loop.simps split: sum.splits prod.splits)
    from a b c have lt: "length input3 < length input"
      by (auto dest!: helper_lengths)
    from less.hyps [OF lt d] lt show ?thesis
      by simp
  qed
qed

lemma parse_params_length:
  "parse_params input = Inr (ps, input1) \<Longrightarrow> length input1 < length input"
  unfolding parse_params_def
  by (auto simp del: parse_params_loop.simps split: if_splits sum.splits prod.splits
           dest!: helper_lengths parse_params_loop_length)

lemma parse_funcdecl_length:
  "parse_funcdecl n input = Inr (nd, input1) \<Longrightarrow> length input1 < length input"
  unfolding parse_funcdecl_def
  by (auto split: if_splits sum.splits prod.splits
           dest!: helper_lengths parse_block_length parse_params_length)

lemma parse_funcdecl_settles: "settles (\<lambda>n. parse_funcdecl n input)"
  unfolding parse_funcdecl_def
  apply (intro settles_bind settles_if settles_prod settles_const parse_block_settles)
  apply (auto simp: helper_fuels)
  done

lemma parse_program_loop_settles: "settles (\<lambda>n. parse_program_loop n vars funcs input)"
proof (induction "length input" arbitrary: vars funcs input rule: less_induct)
  case less
  have ih: "settles (\<lambda>n. parse_program_loop n vars funcs q)"
    if "length q < length input" for vars funcs q
    using less [OF that] .
  show ?case
    apply (rule settles_Suc)
    unfolding parse_program_loop.simps(2)
    apply (intro settles_bind settles_if settles_prod settles_const parse_funcdecl_settles ih)
    apply (auto simp: helper_fuels dest!: helper_lengths parse_funcdecl_length)
    done
qed

lemma parse_settles: "settles (\<lambda>n. parse n q)"
  by (cases q)
     (simp_all add: parse_def parse_program_def parse_program_loop_settles settles_const)

section \<open>The program: which inputs are accepted\<close>

lemma parse_funcdecl_more:
  "parse_funcdecl n input = Inr r \<Longrightarrow> parse_funcdecl (n + k) input = Inr r"
  by (rule fuel_more_Inr [of "\<lambda>n. parse_funcdecl n input", OF parse_funcdecl_fuel_step])

lemma decl_chain_loop:
  "decl_chain n input ds \<Longrightarrow>
   parse_program_loop (n + length ds + 1 + k) vars funcs input
     = Inr (ProgramNode_new (vars @ globals_of ds) (funcs @ functions_of ds), [])"
proof (induction ds arbitrary: input vars funcs)
  case Nil
  then show ?case
    by (simp add: TokenQueue_is_empty_def globals_of_def functions_of_def)
next
  case (Cons d ds)
  obtain is_func nd where d: "d = (is_func, nd)"
    by (cases d)
  let ?m = "n + length ds + 1 + k"
  have fuel: "n + length (d # ds) + 1 + k = Suc ?m"
    by simp
  from Cons.prems d have ne: "\<not> TokenQueue_is_empty input"
    and flag: "is_func = check_next_token input KEY ''def''"
    by (simp_all add: TokenQueue_is_empty_def)
  show ?case
  proof (cases is_func)
    case True
    with Cons.prems d obtain input1 where
      decl: "parse_funcdecl n input = Inr (nd, input1)" and chain: "decl_chain n input1 ds"
      by (auto split: sum.splits)
    have "parse_funcdecl ?m input = Inr (nd, input1)"
      using parse_funcdecl_more [OF decl, of "length ds + 1 + k"] by (simp add: add.assoc)
    then have "parse_program_loop (Suc ?m) vars funcs input
        = parse_program_loop ?m vars (funcs @ [nd]) input1"
      using ne flag True by simp
    also have "\<dots> = Inr (ProgramNode_new (vars @ globals_of ds)
        ((funcs @ [nd]) @ functions_of ds), [])"
      by (rule Cons.IH [OF chain])
    finally show ?thesis
      unfolding fuel using d True by (simp add: globals_of_def functions_of_def)
  next
    case False
    with Cons.prems d obtain input1 where
      decl: "parse_vardecl input = Inr (nd, input1)" and chain: "decl_chain n input1 ds"
      by (auto split: sum.splits)
    then have "parse_program_loop (Suc ?m) vars funcs input
        = parse_program_loop ?m (vars @ [nd]) funcs input1"
      using ne flag False by simp
    also have "\<dots> = Inr (ProgramNode_new ((vars @ [nd]) @ globals_of ds)
        (funcs @ functions_of ds), [])"
      by (rule Cons.IH [OF chain])
    finally show ?thesis
      unfolding fuel using d False by (simp add: globals_of_def functions_of_def)
  qed
qed

lemma loop_decl_chain:
  "parse_program_loop m vars funcs input = Inr (prog, rest) \<Longrightarrow> m \<le> n \<Longrightarrow>
   \<exists>ds. decl_chain n input ds \<and>
     prog = ProgramNode_new (vars @ globals_of ds) (funcs @ functions_of ds)"
proof (induction m arbitrary: vars funcs input)
  case 0
  then show ?case by simp
next
  case (Suc m)
  show ?case
  proof (cases "input = []")
    case True
    with Suc.prems have "prog = ProgramNode_new vars funcs"
      by (simp add: TokenQueue_is_empty_def)
    with True have "decl_chain n input [] \<and>
        prog = ProgramNode_new (vars @ globals_of []) (funcs @ functions_of [])"
      by (simp add: globals_of_def functions_of_def)
    then show ?thesis
      by blast
  next
    case False
    then have ne: "\<not> TokenQueue_is_empty input"
      by (simp add: TokenQueue_is_empty_def)
    from Suc.prems(2) have mn: "m \<le> n"
      by simp
    show ?thesis
    proof (cases "check_next_token input KEY ''def''")
      case True
      with Suc.prems(1) ne obtain nd input1 where
        decl: "parse_funcdecl m input = Inr (nd, input1)"
        and loop: "parse_program_loop m vars (funcs @ [nd]) input1 = Inr (prog, rest)"
        by (auto split: sum.splits)
      from Suc.IH [OF loop mn] obtain ds where
        ds: "decl_chain n input1 ds"
          "prog = ProgramNode_new (vars @ globals_of ds) ((funcs @ [nd]) @ functions_of ds)"
        by blast
      have "parse_funcdecl n input = Inr (nd, input1)"
        using parse_funcdecl_more [OF decl, of "n - m"] mn by simp
      with ds False True have "decl_chain n input ((True, nd) # ds) \<and>
          prog = ProgramNode_new (vars @ globals_of ((True, nd) # ds))
            (funcs @ functions_of ((True, nd) # ds))"
        by (simp add: globals_of_def functions_of_def)
      then show ?thesis
        by blast
    next
      case no_def: False
      with Suc.prems(1) ne obtain nd input1 where
        decl: "parse_vardecl input = Inr (nd, input1)"
        and loop: "parse_program_loop m (vars @ [nd]) funcs input1 = Inr (prog, rest)"
        by (auto split: sum.splits)
      from Suc.IH [OF loop mn] obtain ds where
        ds: "decl_chain n input1 ds"
          "prog = ProgramNode_new ((vars @ [nd]) @ globals_of ds) (funcs @ functions_of ds)"
        by blast
      with decl False no_def have "decl_chain n input ((False, nd) # ds) \<and>
          prog = ProgramNode_new (vars @ globals_of ((False, nd) # ds))
            (funcs @ functions_of ((False, nd) # ds))"
        by (simp add: globals_of_def functions_of_def)
      then show ?thesis
        by blast
    qed
  qed
qed

text \<open>
  C8. The top-level parse succeeds exactly on the queues that a sequence of top-level
  declarations exhausts. If the declarations \<open>ds\<close>, each parsed by \<open>parse_funcdecl\<close> or
  \<open>parse_vardecl\<close>, use up \<open>input\<close>, then \<open>parse\<close> returns the program of their variables and
  functions, each list in the order of the input, and an empty queue; if \<open>parse\<close> returns a
  program, the input is such a sequence and the program is the one of its declarations.
  The parse always returns: from some budget on its result is fixed and is not
  \<open>Out_of_fuel\<close>. The empty queue is the sequence of no declarations: \<open>parse\<close> returns the
  program with no variable and no function.
\<close>

theorem parse_succeeds_exactly_on_declarations:
  "(decl_chain n input ds \<longrightarrow>
      parse (n + length ds + 1 + k) (Some input)
        = Inr (ProgramNode_new (globals_of ds) (functions_of ds), [])) \<and>
   (parse n (Some input) = Inr (prog, rest) \<longrightarrow>
      rest = [] \<and>
      (\<exists>ds. decl_chain n input ds \<and>
         prog = ProgramNode_new (globals_of ds) (functions_of ds))) \<and>
   settles (\<lambda>n. parse n (Some input)) \<and>
   parse (1 + k) (Some []) = Inr (ProgramNode_new [] [], [])"
proof (intro conjI impI)
  assume "decl_chain n input ds"
  from decl_chain_loop [OF this, of k "[]" "[]"]
  show "parse (n + length ds + 1 + k) (Some input)
      = Inr (ProgramNode_new (globals_of ds) (functions_of ds), [])"
    by (simp add: parse_def parse_program_def)
next
  assume "parse n (Some input) = Inr (prog, rest)"
  then have loop: "parse_program_loop n [] [] input = Inr (prog, rest)"
    by (simp add: parse_def parse_program_def)
  from parse_program_loop_rest [OF loop] show "rest = []" .
  from loop_decl_chain [OF loop order_refl]
  show "\<exists>ds. decl_chain n input ds \<and>
      prog = ProgramNode_new (globals_of ds) (functions_of ds)"
    by simp
next
  show "settles (\<lambda>n. parse n (Some input))"
    by (rule parse_settles)
next
  show "parse (1 + k) (Some []) = Inr (ProgramNode_new [] [], [])"
    by (simp add: parse_def parse_program_def TokenQueue_is_empty_def)
qed

theorem parse_succeeds_exactly_on_declarations_witness:
  "decl_chain 20
     [Token KEY ''def'' 1, Token KEY ''void'' 1, Token ID ''f'' 1, Token SYM ''('' 1,
      Token SYM '')'' 1, Token SYM ''{'' 1, Token SYM ''}'' 1,
      Token KEY ''bool'' 2, Token ID ''b'' 2, Token SYM '';'' 2]
     [(True, FuncDeclNode_new ''f'' VOID [] (BlockNode_new [] [] 1) 1),
      (False, VarDeclNode_new ''b'' BOOL False 1 2)] \<and>
   parse 23 (Some
     [Token KEY ''def'' 1, Token KEY ''void'' 1, Token ID ''f'' 1, Token SYM ''('' 1,
      Token SYM '')'' 1, Token SYM ''{'' 1, Token SYM ''}'' 1,
      Token KEY ''bool'' 2, Token ID ''b'' 2, Token SYM '';'' 2])
     = Inr (ProgramNode_new [VarDeclNode_new ''b'' BOOL False 1 2]
              [FuncDeclNode_new ''f'' VOID [] (BlockNode_new [] [] 1) 1], []) \<and>
   (\<exists>ds. decl_chain 23
       [Token KEY ''def'' 1, Token KEY ''void'' 1, Token ID ''f'' 1, Token SYM ''('' 1,
        Token SYM '')'' 1, Token SYM ''{'' 1, Token SYM ''}'' 1,
        Token KEY ''bool'' 2, Token ID ''b'' 2, Token SYM '';'' 2] ds \<and>
     ProgramNode_new [VarDeclNode_new ''b'' BOOL False 1 2]
       [FuncDeclNode_new ''f'' VOID [] (BlockNode_new [] [] 1) 1]
       = ProgramNode_new (globals_of ds) (functions_of ds))"
proof -
  let ?toks = "[Token KEY ''def'' 1, Token KEY ''void'' 1, Token ID ''f'' 1, Token SYM ''('' 1,
      Token SYM '')'' 1, Token SYM ''{'' 1, Token SYM ''}'' 1,
      Token KEY ''bool'' 2, Token ID ''b'' 2, Token SYM '';'' 2]"
  let ?ds = "[(True, FuncDeclNode_new ''f'' VOID [] (BlockNode_new [] [] 1) 1),
      (False, VarDeclNode_new ''b'' BOOL False 1 2)]"
  have chain: "decl_chain 20 ?toks ?ds"
    by code_simp
  from parse_succeeds_exactly_on_declarations [of 20 ?toks ?ds 0, THEN conjunct1, rule_format,
    OF chain]
  have res: "parse 23 (Some ?toks)
      = Inr (ProgramNode_new [VarDeclNode_new ''b'' BOOL False 1 2]
               [FuncDeclNode_new ''f'' VOID [] (BlockNode_new [] [] 1) 1], [])"
    by (simp add: globals_of_def functions_of_def)
  from parse_succeeds_exactly_on_declarations [of 23 ?toks,
    THEN conjunct2, THEN conjunct1, rule_format, OF res]
  have "\<exists>ds. decl_chain 23 ?toks ds \<and>
     ProgramNode_new [VarDeclNode_new ''b'' BOOL False 1 2]
       [FuncDeclNode_new ''f'' VOID [] (BlockNode_new [] [] 1) 1]
       = ProgramNode_new (globals_of ds) (functions_of ds)"
    by simp
  with chain res show ?thesis
    by simp
qed

end
